theory Spec2Isabelle
  imports Complex_Main
begin

section \<open>The price ingester (ingest.py)\<close>

text \<open>
  The program polls a price API and appends one row per asset to a relational store. The
  store, the HTTP endpoint, the clock and the process environment are outside the program,
  so they appear here as explicit values: the store as a record of tables with the
  constraints that the program's own DDL declares, the HTTP answer and the clock as
  inputs of each cycle. Every \<^verbatim>\<open>raise\<close> of the source is an \<open>Inl\<close> result.
\<close>

subsection \<open>Errors\<close>

datatype error =
    RuntimeError
  | OperationalError
  | InterfaceError
  | HTTPError nat
  | Timeout
  | ConnectionError
  | JSONDecodeError
  | KeyError string
  | UndefinedTable
  | DuplicateTable
  | UniqueViolation
  | ForeignKeyViolation
  | InvalidColumnReference
  | FeatureNotSupported
  | InFailedSqlTransaction
  | DatabaseError

text \<open>
  The test of \<^verbatim>\<open>except requests.HTTPError\<close>. In the requests library, timeouts,
  connection errors and JSON decoding errors are siblings of \<^verbatim>\<open>HTTPError\<close> under
  \<^verbatim>\<open>RequestException\<close>, not subclasses of it.
\<close>

fun is_HTTPError :: "error \<Rightarrow> bool" where
  "is_HTTPError (HTTPError _) = True"
| "is_HTTPError _ = False"

subsection \<open>Configuration\<close>

definition ASSETS :: "(string \<times> string \<times> string) list" where
  "ASSETS = [(''bitcoin'', ''BTC'', ''Bitcoin''), (''ethereum'', ''ETH'', ''Ethereum'')]"

subsection \<open>The store\<close>

record user_row =
  u_id :: nat
  u_name :: string

record asset_row =
  a_id :: nat
  a_symbol :: string
  a_name :: string

record tx_row =
  t_id :: nat
  user_id :: nat
  asset_id :: nat
  amount :: int
  price_usd :: real
  ts :: nat

text \<open>
  A table that does not exist is \<open>None\<close>. A table that exists has the columns and the
  constraints of the \<^verbatim>\<open>CREATE TABLE\<close> statements of \<^verbatim>\<open>ensure_schema\<close>.
\<close>

record store =
  users :: "user_row list option"
  assets :: "asset_row list option"
  transactions :: "tx_row list option"
  hypertable :: bool
  assets_symbol_key :: bool

text \<open>The \<^verbatim>\<open>SERIAL\<close> sequences: the last value handed out. They are not transactional.\<close>

record seqs =
  users_id_seq :: nat
  assets_id_seq :: nat
  transactions_id_seq :: nat

definition rows_of :: "'a list option \<Rightarrow> 'a list" where
  "rows_of t = (case t of None \<Rightarrow> [] | Some rs \<Rightarrow> rs)"

type_synonym new_tx = "nat \<times> nat \<times> int \<times> real \<times> nat"

datatype sql =
    CreateUsers
  | CreateAssets
  | CreateTransactions
  | CreateHypertable
  | SelectIndex
  | CreateIndex
  | InsertUser string
  | InsertAsset string string
  | SelectAssets
  | InsertTransactions "new_tx list"

datatype action = Exec sql | Commit | Rollback | Close

text \<open>
  A psycopg2 connection: the committed store on the server, the state of the connection,
  the sequences, and the calls made on the connection so far. The connection is idle, or
  has a transaction open (with its working copy), or has a transaction that a statement
  has failed, or is closed: by \<^verbatim>\<open>conn.close()\<close>, or by psycopg2 when a call finds that
  the server is gone.
\<close>

datatype txn = Idle | InTxn store | Failed | Closed

record conn =
  committed :: store
  txn :: txn
  sequences :: seqs
  trace :: "action list"

definition view :: "conn \<Rightarrow> store" where
  "view c = (case txn c of InTxn s \<Rightarrow> s | _ \<Rightarrow> committed c)"

subsection \<open>Statements\<close>

text \<open>
  A statement maps the store its transaction sees, and the sequences, to an error or a
  result with the new store, and to the new sequences (a sequence value that was drawn
  stays drawn when the statement fails).
\<close>

type_synonym 'r stmt = "store \<Rightarrow> seqs \<Rightarrow> (error + 'r \<times> store) \<times> seqs"

definition create_users :: "unit stmt" where
  "create_users s q =
     (case users s of
        None \<Rightarrow> (Inr ((), s\<lparr>users := Some []\<rparr>), q\<lparr>users_id_seq := 0\<rparr>)
      | Some _ \<Rightarrow> (Inr ((), s), q))"

definition create_assets :: "unit stmt" where
  "create_assets s q =
     (case assets s of
        None \<Rightarrow> (Inr ((), s\<lparr>assets := Some []\<rparr>), q\<lparr>assets_id_seq := 0\<rparr>)
      | Some _ \<Rightarrow> (Inr ((), s), q))"

definition create_transactions :: "unit stmt" where
  "create_transactions s q =
     (case transactions s of
        None \<Rightarrow>
          (if users s = None \<or> assets s = None then (Inl UndefinedTable, q)
           else (Inr ((), s\<lparr>transactions := Some []\<rparr>), q\<lparr>transactions_id_seq := 0\<rparr>))
      | Some _ \<Rightarrow> (Inr ((), s), q))"

text \<open>
  \<^verbatim>\<open>create_hypertable('transactions', 'ts', if_not_exists => TRUE)\<close>: nothing to do on a
  hypertable; a plain table is converted when it is empty, and refused when it holds rows
  (the call does not ask for a migration of data).
\<close>

definition create_hypertable :: "unit stmt" where
  "create_hypertable s q =
     (case transactions s of
        None \<Rightarrow> (Inl UndefinedTable, q)
      | Some rs \<Rightarrow>
          (if hypertable s then (Inr ((), s), q)
           else if rs \<noteq> [] then (Inl FeatureNotSupported, q)
           else (Inr ((), s\<lparr>hypertable := True\<rparr>), q)))"

text \<open>The lookup in \<^verbatim>\<open>pg_indexes\<close>: whether \<^verbatim>\<open>fetchone()\<close> returns a row.\<close>

definition select_index :: "bool stmt" where
  "select_index s q = (Inr (assets_symbol_key s, s), q)"

definition create_index :: "unit stmt" where
  "create_index s q =
     (if assets_symbol_key s then (Inl DuplicateTable, q)
      else (case assets s of
              None \<Rightarrow> (Inl UndefinedTable, q)
            | Some rs \<Rightarrow>
                (if distinct (map a_symbol rs)
                 then (Inr ((), s\<lparr>assets_symbol_key := True\<rparr>), q)
                 else (Inl UniqueViolation, q))))"

text \<open>
  \<^verbatim>\<open>INSERT INTO users (name) VALUES (..) ON CONFLICT DO NOTHING\<close>: the only unique
  constraint of \<^verbatim>\<open>users\<close> is the primary key on the serial \<^verbatim>\<open>id\<close>, so the row is
  skipped only when the id just drawn is already taken.
\<close>

definition insert_user :: "string \<Rightarrow> unit stmt" where
  "insert_user name s q =
     (case users s of
        None \<Rightarrow> (Inl UndefinedTable, q)
      | Some rs \<Rightarrow>
          (let i = Suc (users_id_seq q); q' = q\<lparr>users_id_seq := i\<rparr> in
           if i \<in> set (map u_id rs) then (Inr ((), s), q')
           else (Inr ((), s\<lparr>users := Some (rs @ [\<lparr>u_id = i, u_name = name\<rparr>])\<rparr>), q')))"

text \<open>
  \<^verbatim>\<open>INSERT INTO assets (symbol, name) VALUES (..) ON CONFLICT (symbol) DO NOTHING\<close>: needs
  the unique index on \<^verbatim>\<open>symbol\<close> as its arbiter; skips the row when the symbol is there.
\<close>

definition insert_asset :: "string \<Rightarrow> string \<Rightarrow> unit stmt" where
  "insert_asset sy name s q =
     (case assets s of
        None \<Rightarrow> (Inl UndefinedTable, q)
      | Some rs \<Rightarrow>
          (if \<not> assets_symbol_key s then (Inl InvalidColumnReference, q)
           else
             (let i = Suc (assets_id_seq q); q' = q\<lparr>assets_id_seq := i\<rparr> in
              if sy \<in> set (map a_symbol rs) then (Inr ((), s), q')
              else if i \<in> set (map a_id rs) then (Inl UniqueViolation, q')
              else (Inr ((), s\<lparr>assets := Some (rs @ [\<lparr>a_id = i, a_symbol = sy, a_name = name\<rparr>])\<rparr>),
                    q'))))"

definition select_assets :: "(nat \<times> string) list stmt" where
  "select_assets s q =
     (case assets s of
        None \<Rightarrow> (Inl UndefinedTable, q)
      | Some rs \<Rightarrow> (Inr (map (\<lambda>r. (a_id r, a_symbol r)) rs, s), q))"

text \<open>
  A multi-row \<^verbatim>\<open>INSERT INTO transactions\<close>. Each row draws its id and is checked against
  the primary key \<open>(id, ts)\<close>; the foreign keys are checked when all rows are in.
\<close>

fun place_rows :: "new_tx list \<Rightarrow> tx_row list \<Rightarrow> nat \<Rightarrow> (error + tx_row list) \<times> nat" where
  "place_rows [] old n = (Inr old, n)"
| "place_rows ((u, a, amt, p, t) # rest) old n =
     (let i = Suc n in
      if \<exists>r \<in> set old. t_id r = i \<and> ts r = t then (Inl UniqueViolation, i)
      else place_rows rest
             (old @ [\<lparr>t_id = i, user_id = u, asset_id = a, amount = amt, price_usd = p, ts = t\<rparr>]) i)"

definition refs_ok :: "store \<Rightarrow> new_tx \<Rightarrow> bool" where
  "refs_ok s r =
     (case r of (u, a, amt, p, t) \<Rightarrow>
        u \<in> set (map u_id (rows_of (users s))) \<and> a \<in> set (map a_id (rows_of (assets s))))"

definition insert_transactions :: "new_tx list \<Rightarrow> unit stmt" where
  "insert_transactions page s q =
     (case transactions s of
        None \<Rightarrow> (Inl UndefinedTable, q)
      | Some rs \<Rightarrow>
          (case place_rows page rs (transactions_id_seq q) of
             (Inl e, n) \<Rightarrow> (Inl e, q\<lparr>transactions_id_seq := n\<rparr>)
           | (Inr rs', n) \<Rightarrow>
               (if list_all (refs_ok s) page
                then (Inr ((), s\<lparr>transactions := Some rs'\<rparr>), q\<lparr>transactions_id_seq := n\<rparr>)
                else (Inl ForeignKeyViolation, q\<lparr>transactions_id_seq := n\<rparr>))))"

subsection \<open>Running statements on a connection\<close>

text \<open>
  What may befall a call from outside the program: the server refuses the statement, or
  the connection to the server is lost. After a loss the call raises OperationalError and
  psycopg2 holds the connection closed. A call that meets either leaves the store as it
  was.
\<close>

datatype mishap = Refused | Lost

text \<open>
  \<^verbatim>\<open>cur.execute\<close>: the first statement opens a transaction; a statement that fails leaves
  the transaction in the failed state, in which every statement is refused until
  \<^verbatim>\<open>rollback\<close>. On a closed connection every call raises InterfaceError.
\<close>

definition execute ::
  "mishap option \<Rightarrow> sql \<Rightarrow> 'r stmt \<Rightarrow> conn \<Rightarrow> (error + 'r) \<times> conn" where
  "execute mis q f c0 =
     (let c = c0\<lparr>trace := trace c0 @ [Exec q]\<rparr> in
      if txn c = Closed then (Inl InterfaceError, c)
      else if mis = Some Lost then (Inl OperationalError, c\<lparr>txn := Closed\<rparr>)
      else if txn c = Failed then (Inl InFailedSqlTransaction, c)
      else if mis = Some Refused then (Inl DatabaseError, c\<lparr>txn := Failed\<rparr>)
      else (case f (view c) (sequences c) of
              (Inl e, n) \<Rightarrow> (Inl e, c\<lparr>txn := Failed, sequences := n\<rparr>)
            | (Inr (r, s), n) \<Rightarrow> (Inr r, c\<lparr>txn := InTxn s, sequences := n\<rparr>)))"

definition commit :: "mishap option \<Rightarrow> conn \<Rightarrow> (error + unit) \<times> conn" where
  "commit mis c0 =
     (let c = c0\<lparr>trace := trace c0 @ [Commit]\<rparr> in
      if txn c = Closed then (Inl InterfaceError, c)
      else if mis = Some Lost then (Inl OperationalError, c\<lparr>txn := Closed\<rparr>)
      else if mis = Some Refused then (Inl DatabaseError, c\<lparr>txn := Idle\<rparr>)
      else (Inr (), c\<lparr>committed := view c, txn := Idle\<rparr>))"

text \<open>
  \<^verbatim>\<open>conn.rollback()\<close> ends the transaction of an open connection, and raises on a closed
  one; \<^verbatim>\<open>conn.close()\<close> never raises.
\<close>

definition rollback :: "conn \<Rightarrow> (error + unit) \<times> conn" where
  "rollback c0 =
     (let c = c0\<lparr>trace := trace c0 @ [Rollback]\<rparr> in
      if txn c = Closed then (Inl InterfaceError, c)
      else (Inr (), c\<lparr>txn := Idle\<rparr>))"

definition close :: "conn \<Rightarrow> conn" where
  "close c = c\<lparr>txn := Closed, trace := trace c @ [Close]\<rparr>"

text \<open>Sequencing of calls that may raise: the first error ends the sequence.\<close>

definition andthen ::
  "(conn \<Rightarrow> (error + 'a) \<times> conn) \<Rightarrow> ('a \<Rightarrow> conn \<Rightarrow> (error + 'b) \<times> conn) \<Rightarrow>
   conn \<Rightarrow> (error + 'b) \<times> conn" where
  "andthen m f c = (case m c of (Inl e, c') \<Rightarrow> (Inl e, c') | (Inr x, c') \<Rightarrow> f x c')"

definition ret :: "'a \<Rightarrow> conn \<Rightarrow> (error + 'a) \<times> conn" where
  "ret x c = (Inr x, c)"

definition throw :: "error \<Rightarrow> conn \<Rightarrow> (error + 'a) \<times> conn" where
  "throw e c = (Inl e, c)"

subsection \<open>ensure_schema and seed_reference_data\<close>

definition ensure_schema :: "conn \<Rightarrow> (error + unit) \<times> conn" where
  "ensure_schema =
     andthen (execute None CreateUsers create_users) (\<lambda>_.
     andthen (execute None CreateAssets create_assets) (\<lambda>_.
     andthen (execute None CreateTransactions create_transactions) (\<lambda>_.
     andthen (execute None CreateHypertable create_hypertable) (\<lambda>_.
     andthen (execute None SelectIndex select_index) (\<lambda>found.
     andthen (if \<not> found then execute None CreateIndex create_index else ret ()) (\<lambda>_.
     commit None))))))"

fun seed_assets :: "(string \<times> string \<times> string) list \<Rightarrow> conn \<Rightarrow> (error + unit) \<times> conn" where
  "seed_assets [] = ret ()"
| "seed_assets ((cg, symbol, name) # rest) =
     andthen (execute None (InsertAsset symbol name) (insert_asset symbol name))
       (\<lambda>_. seed_assets rest)"

definition seed_reference_data :: "conn \<Rightarrow> (error + unit) \<times> conn" where
  "seed_reference_data =
     andthen (execute None (InsertUser ''Sarah'') (insert_user ''Sarah'')) (\<lambda>_.
     andthen (seed_assets ASSETS) (\<lambda>_.
     commit None))"

subsection \<open>fetch_prices\<close>

text \<open>
  The parsed body of the answer, in the shape the endpoint documents: asset id to
  (currency to price), each dictionary as the list of its items in order. What
  \<^verbatim>\<open>requests.get\<close> brings back for the one request of a cycle is an input of the cycle.
\<close>

type_synonym prices = "(string \<times> (string \<times> real) list) list"

datatype http_result =
    Response nat "prices option"
  | TimedOut
  | Unreachable

text \<open>
  \<^verbatim>\<open>raise_for_status\<close> raises for the client and server error statuses, 400 to 599, and
  for no other status; \<^verbatim>\<open>r.json()\<close> raises when the body is not JSON (\<open>None\<close>).
\<close>

definition fetch_prices :: "http_result \<Rightarrow> error + prices" where
  "fetch_prices h =
     (case h of
        TimedOut \<Rightarrow> Inl Timeout
      | Unreachable \<Rightarrow> Inl ConnectionError
      | Response status body \<Rightarrow>
          (if 400 \<le> status \<and> status < 600 then Inl (HTTPError status)
           else (case body of None \<Rightarrow> Inl JSONDecodeError | Some d \<Rightarrow> Inr d)))"

subsection \<open>get_asset_id_map and ingest_once\<close>

text \<open>The dictionary comprehension: for a symbol that occurs twice the later row wins.\<close>

definition get_asset_id_map ::
  "mishap option \<Rightarrow> conn \<Rightarrow> (error + (string \<rightharpoonup> nat)) \<times> conn" where
  "get_asset_id_map mis =
     andthen (execute mis SelectAssets select_assets)
       (\<lambda>rows. ret (map_of (rev (map (\<lambda>(aid, sy). (sy, aid)) rows))))"

text \<open>The loop over \<^verbatim>\<open>data.items()\<close>; each of the three subscripts may raise KeyError.\<close>

fun build_rows :: "prices \<Rightarrow> (string \<rightharpoonup> nat) \<Rightarrow> nat \<Rightarrow> error + new_tx list" where
  "build_rows [] m t = Inr []"
| "build_rows ((cg_id, payload) # rest) m t =
     (case map_of ASSETS cg_id of
        None \<Rightarrow> Inl (KeyError cg_id)
      | Some (symbol, name) \<Rightarrow>
          (case m symbol of
             None \<Rightarrow> Inl (KeyError symbol)
           | Some aid \<Rightarrow>
               (case map_of payload ''usd'' of
                  None \<Rightarrow> Inl (KeyError ''usd'')
                | Some price \<Rightarrow>
                    (case build_rows rest m t of
                       Inl e \<Rightarrow> Inl e
                     | Inr rows \<Rightarrow> Inr ((1, aid, 1, price, t) # rows)))))"

text \<open>
  \<^verbatim>\<open>psycopg2.extras.execute_values\<close> with its default page size of 100: one
  \<^verbatim>\<open>INSERT\<close> statement per page of rows, none for no rows.
\<close>

function paginate :: "nat \<Rightarrow> 'a list \<Rightarrow> 'a list list" where
  "paginate n xs = (if n = 0 \<or> xs = [] then [] else take n xs # paginate n (drop n xs))"
  by pat_completeness auto
termination
  by (relation "measure (\<lambda>(n, xs). length xs)") auto

declare paginate.simps [simp del]

fun execute_pages ::
  "mishap option \<Rightarrow> new_tx list list \<Rightarrow> conn \<Rightarrow> (error + unit) \<times> conn" where
  "execute_pages mis [] = ret ()"
| "execute_pages mis (page # pages) =
     andthen (execute mis (InsertTransactions page) (insert_transactions page))
       (\<lambda>_. execute_pages mis pages)"

definition execute_values ::
  "mishap option \<Rightarrow> new_tx list \<Rightarrow> conn \<Rightarrow> (error + unit) \<times> conn" where
  "execute_values mis rows = execute_pages mis (paginate 100 rows)"

text \<open>
  What one cycle meets outside the program: the answer to its HTTP request, the clock, and
  the database call of \<^verbatim>\<open>ingest_once\<close>, if any, that fails in this cycle, with what
  befalls it.
\<close>

datatype point = AtSelect | AtInsert | AtCommit

datatype fault = NoFault | Fails point mishap

fun hit :: "fault \<Rightarrow> point \<Rightarrow> mishap option" where
  "hit NoFault p = None"
| "hit (Fails p' m) p = (if p' = p then Some m else None)"

record cycle_env =
  http :: http_result
  started :: nat
  waited :: nat
  fault :: fault

text \<open>
  \<^verbatim>\<open>ingest_once\<close> reads the clock once, in the line after \<^verbatim>\<open>fetch_prices()\<close>: the
  reading is the time at which the cycle started plus the time the request took.
\<close>

definition utcnow :: "cycle_env \<Rightarrow> nat" where
  "utcnow env = started env + waited env"

text \<open>The result is the row count and the timestamp of the status line.\<close>

definition ingest_once :: "cycle_env \<Rightarrow> conn \<Rightarrow> (error + nat \<times> nat) \<times> conn" where
  "ingest_once env =
     (case fetch_prices (http env) of
        Inl e \<Rightarrow> throw e
      | Inr data \<Rightarrow>
          andthen (get_asset_id_map (hit (fault env) AtSelect)) (\<lambda>asset_id_by_symbol.
            (case build_rows data asset_id_by_symbol (utcnow env) of
               Inl e \<Rightarrow> throw e
             | Inr rows \<Rightarrow>
                 andthen (execute_values (hit (fault env) AtInsert) rows) (\<lambda>_.
                 andthen (commit (hit (fault env) AtCommit)) (\<lambda>_.
                 ret (length rows, utcnow env))))))"

subsection \<open>The driver loop and main\<close>

datatype outcome = Inserted nat nat | HttpWarning error | IngestError error

text \<open>
  The body of \<^verbatim>\<open>while True\<close>: the \<^verbatim>\<open>try\<close> with its two handlers. It gives the line
  it prints, the exception that leaves it, if any, and the connection. The second handler
  prints its line and then calls \<^verbatim>\<open>conn.rollback()\<close>; what that call raises is caught
  by no handler.
\<close>

definition cycle :: "cycle_env \<Rightarrow> conn \<Rightarrow> (outcome \<times> error option) \<times> conn" where
  "cycle env c =
     (case ingest_once env c of
        (Inr (n, t), c') \<Rightarrow> ((Inserted n t, None), c')
      | (Inl e, c') \<Rightarrow>
          (if is_HTTPError e then ((HttpWarning e, None), c')
           else (case rollback c' of
                   (Inr _, c'') \<Rightarrow> ((IngestError e, None), c'')
                 | (Inl e', c'') \<Rightarrow> ((IngestError e, Some e'), c''))))"

text \<open>
  The loop ends only by an exception. It is run here on a finite list of events: a tick
  is one pass through the body, an interrupt is Ctrl+C. An exception that leaves the body
  leaves the loop; when the list is used up the program is still polling.
\<close>

datatype event = Tick cycle_env | Interrupt

datatype exit = Raised error | Stopped | Polling

fun loop :: "event list \<Rightarrow> conn \<Rightarrow> outcome list \<Rightarrow> exit \<times> conn \<times> outcome list" where
  "loop [] c printed = (Polling, c, printed)"
| "loop (Interrupt # evs) c printed = (Stopped, c, printed)"
| "loop (Tick env # evs) c printed =
     (case cycle env c of
        ((out, None), c') \<Rightarrow> loop evs c' (printed @ [out])
      | ((out, Some e), c') \<Rightarrow> (Raised e, c', printed @ [out]))"

text \<open>
  The world at process start: the environment variable (after \<^verbatim>\<open>load_dotenv\<close>), whether
  the server accepts a connection for a URL, and the database with its sequences.
\<close>

record world =
  environ :: "string option"
  accepts :: "string \<Rightarrow> bool"
  database :: store
  counters :: seqs

definition PGURL :: "string option \<Rightarrow> error + string" where
  "PGURL v = (case v of None \<Rightarrow> Inl RuntimeError
              | Some url \<Rightarrow> if url = [] then Inl RuntimeError else Inr url)"

definition connect :: "world \<Rightarrow> string \<Rightarrow> error + conn" where
  "connect w url =
     (if accepts w url
      then Inr \<lparr>committed = database w, txn = Idle, sequences = counters w, trace = []\<rparr>
      else Inl OperationalError)"

text \<open>
  A run ends with its exit, the world as the run leaves it, the calls made on the
  connection, and the lines printed by the loop.
\<close>

type_synonym run = "exit \<times> world \<times> action list \<times> outcome list"

definition leave :: "world \<Rightarrow> exit \<Rightarrow> conn \<Rightarrow> outcome list \<Rightarrow> run" where
  "leave w x c printed = (x, w\<lparr>database := committed c, counters := sequences c\<rparr>, trace c, printed)"

definition main :: "world \<Rightarrow> string \<Rightarrow> event list \<Rightarrow> run" where
  "main w url evs =
     (case connect w url of
        Inl e \<Rightarrow> (Raised e, w, [], [])
      | Inr c \<Rightarrow>
          (case ensure_schema c of
             (Inl e, c1) \<Rightarrow> leave w (Raised e) (close c1) []
           | (Inr _, c1) \<Rightarrow>
               (case seed_reference_data c1 of
                  (Inl e, c2) \<Rightarrow> leave w (Raised e) (close c2) []
                | (Inr _, c2) \<Rightarrow>
                    (case loop evs c2 [] of
                       (Polling, c3, printed) \<Rightarrow> leave w Polling c3 printed
                     | (x, c3, printed) \<Rightarrow> leave w x (close c3) printed))))"

text \<open>The module: the check of the environment variable at import, then \<^verbatim>\<open>main()\<close>.\<close>

definition program :: "world \<Rightarrow> event list \<Rightarrow> run" where
  "program w evs =
     (case PGURL (environ w) of
        Inl e \<Rightarrow> (Raised e, w, [], [])
      | Inr url \<Rightarrow> main w url evs)"

subsection \<open>Reference states\<close>

text \<open>
  A new connection to an empty database, the connection after \<^verbatim>\<open>ensure_schema\<close> on
  it, and the connection after \<^verbatim>\<open>seed_reference_data\<close> on that: the state in which
  a first run of the program enters its loop.
\<close>

definition empty_store :: store where
  "empty_store =
     \<lparr>users = None, assets = None, transactions = None,
      hypertable = False, assets_symbol_key = False\<rparr>"

definition fresh :: conn where
  "fresh =
     \<lparr>committed = empty_store, txn = Idle,
      sequences = \<lparr>users_id_seq = 0, assets_id_seq = 0, transactions_id_seq = 0\<rparr>,
      trace = []\<rparr>"

definition created :: conn where
  "created =
     \<lparr>committed = \<lparr>users = Some [], assets = Some [], transactions = Some [],
                   hypertable = True, assets_symbol_key = True\<rparr>,
      txn = Idle,
      sequences = \<lparr>users_id_seq = 0, assets_id_seq = 0, transactions_id_seq = 0\<rparr>,
      trace = [Exec CreateUsers, Exec CreateAssets, Exec CreateTransactions,
               Exec CreateHypertable, Exec SelectIndex, Exec CreateIndex, Commit]\<rparr>"

definition seeded_store :: store where
  "seeded_store =
     \<lparr>users = Some [\<lparr>u_id = 1, u_name = ''Sarah''\<rparr>],
      assets = Some [\<lparr>a_id = 1, a_symbol = ''BTC'', a_name = ''Bitcoin''\<rparr>,
                     \<lparr>a_id = 2, a_symbol = ''ETH'', a_name = ''Ethereum''\<rparr>],
      transactions = Some [], hypertable = True, assets_symbol_key = True\<rparr>"

definition seeded :: conn where
  "seeded =
     \<lparr>committed = seeded_store, txn = Idle,
      sequences = \<lparr>users_id_seq = 1, assets_id_seq = 2, transactions_id_seq = 0\<rparr>,
      trace = trace created @
              [Exec (InsertUser ''Sarah''), Exec (InsertAsset ''BTC'' ''Bitcoin''),
               Exec (InsertAsset ''ETH'' ''Ethereum''), Commit]\<rparr>"

subsection \<open>Predicates on stores and the step relation\<close>

text \<open>What a successful \<^verbatim>\<open>ensure_schema\<close> leaves behind.\<close>

definition bootstrapped :: "store \<Rightarrow> bool" where
  "bootstrapped s =
     (users s \<noteq> None \<and> assets s \<noteq> None \<and> transactions s \<noteq> None \<and>
      hypertable s \<and> assets_symbol_key s)"

text \<open>The observation rows of \<open>s'\<close> are those of \<open>s\<close>, in place, and then new ones.\<close>

definition extends :: "store \<Rightarrow> store \<Rightarrow> bool" where
  "extends s s' =
     (\<exists>new. rows_of (transactions s') = rows_of (transactions s) @ new)"

text \<open>
  The constraints of the schema that the claims speak of: the unique index on the asset
  symbol, when it exists, and the two foreign keys of \<^verbatim>\<open>transactions\<close>.
\<close>

definition symbols_unique :: "store \<Rightarrow> bool" where
  "symbols_unique s = distinct (map a_symbol (rows_of (assets s)))"

definition references_exist :: "store \<Rightarrow> bool" where
  "references_exist s =
     list_all (\<lambda>r. user_id r \<in> set (map u_id (rows_of (users s))) \<and>
                    asset_id r \<in> set (map a_id (rows_of (assets s))))
       (rows_of (transactions s))"

definition integrity :: "store \<Rightarrow> bool" where
  "integrity s = ((\<not> assets_symbol_key s \<or> symbols_unique s) \<and> references_exist s)"

text \<open>
  One operation of the system on its connection: the bootstrap, the seeding, one pass
  through the loop body with whatever the pass meets outside, or the closing of the
  connection.
\<close>

inductive step :: "conn \<Rightarrow> conn \<Rightarrow> bool" where
  schema: "step c (snd (ensure_schema c))"
| seed: "step c (snd (seed_reference_data c))"
| tick: "step c (snd (cycle env c))"
| stop: "step c (close c)"

definition example_prices :: prices where
  "example_prices = [(''bitcoin'', [(''usd'', 67000)]), (''ethereum'', [(''usd'', 3500)])]"

definition example_env :: cycle_env where
  "example_env =
     \<lparr>http = Response 200 (Some example_prices), started = 40, waited = 2, fault = NoFault\<rparr>"

definition example_world :: world where
  "example_world =
     \<lparr>environ = Some ''postgres://db'', accepts = (\<lambda>url. url = ''postgres://db''),
      database = empty_store,
      counters = \<lparr>users_id_seq = 0, assets_id_seq = 0, transactions_id_seq = 0\<rparr>\<rparr>"

definition unknown_prices :: prices where
  "unknown_prices = [(''solana'', [(''usd'', 150)])]"

text \<open>The connection after the first pass of a first run, on the example answer.\<close>

definition polled :: conn where
  "polled =
     \<lparr>committed = seeded_store\<lparr>transactions := Some
        [\<lparr>t_id = 1, user_id = 1, asset_id = 1, amount = 1, price_usd = 67000, ts = 42\<rparr>,
         \<lparr>t_id = 2, user_id = 1, asset_id = 2, amount = 1, price_usd = 3500, ts = 42\<rparr>]\<rparr>,
      txn = Idle,
      sequences = \<lparr>users_id_seq = 1, assets_id_seq = 2, transactions_id_seq = 2\<rparr>,
      trace = trace seeded @
              [Exec SelectAssets,
               Exec (InsertTransactions [(1, 1, 1, 67000, 42), (1, 2, 1, 3500, 42)]),
               Commit]\<rparr>"

text \<open>
  A new connection to a database that a first run has bootstrapped and then left while
  seeding, between the insert of the actor and the commit: the tables are there and
  empty, and the sequence of \<^verbatim>\<open>users\<close>, which no rollback takes back, has handed out
  its first value. Then the connection with which the next run enters its loop.
\<close>

definition burnt :: conn where
  "burnt =
     \<lparr>committed = committed created, txn = Idle,
      sequences = \<lparr>users_id_seq = 1, assets_id_seq = 0, transactions_id_seq = 0\<rparr>,
      trace = []\<rparr>"

definition restarted :: conn where
  "restarted = snd (seed_reference_data (snd (ensure_schema burnt)))"

text \<open>
  How a store may change under the statements of the program: the observation rows are
  kept and only extended, the constraints that hold keep holding, and the unique index,
  once there, stays. A statement \<open>preserves\<close> when every successful run of it changes
  the store so; a connection satisfies \<open>inv k\<close> when both its committed store and the
  store its transaction sees have changed so from \<open>k\<close>.
\<close>

definition evolves :: "store \<Rightarrow> store \<Rightarrow> bool" where
  "evolves k s =
     (extends k s \<and> (\<not> integrity k \<or> integrity s) \<and>
      (\<not> assets_symbol_key k \<or> assets_symbol_key s))"

definition preserves :: "'r stmt \<Rightarrow> bool" where
  "preserves f = (\<forall>s q r s' q'. f s q = (Inr (r, s'), q') \<longrightarrow> evolves s s')"

definition inv :: "store \<Rightarrow> conn \<Rightarrow> bool" where
  "inv k c = (evolves k (committed c) \<and> evolves k (view c))"

section \<open>Properties\<close>

subsection \<open>Sequencing and the committed store\<close>

lemmas stmt_defs = create_users_def create_assets_def create_transactions_def
  create_hypertable_def select_index_def create_index_def insert_user_def insert_asset_def
  select_assets_def insert_transactions_def

lemmas conn_defs = execute_def commit_def rollback_def close_def andthen_def ret_def
  throw_def view_def

lemma andthen_Inl:
  "andthen m f c = (Inl e, c') \<Longrightarrow>
     m c = (Inl e, c') \<or> (\<exists>x c1. m c = (Inr x, c1) \<and> f x c1 = (Inl e, c'))"
  by (auto simp: andthen_def split: prod.splits sum.splits)

text \<open>A property kept by both parts of a sequence is kept by the sequence.\<close>

lemma andthen_keeps:
  assumes "\<And>c. P c \<Longrightarrow> P (snd (m c))" and "\<And>x c. P c \<Longrightarrow> P (snd (f x c))" and "P c"
  shows "P (snd (andthen m f c))"
proof (cases "m c")
  case (Pair r c1)
  have "P c1" using assms(1)[OF assms(3)] Pair by simp
  then show ?thesis using Pair assms(2)[of c1] by (cases r) (simp_all add: andthen_def)
qed

text \<open>Only \<^verbatim>\<open>commit\<close> writes the committed store.\<close>

lemma committed_execute: "committed (snd (execute b q f c)) = committed c"
  by (simp add: execute_def Let_def split: prod.splits sum.splits)

lemma committed_execute_pages: "committed (snd (execute_pages b ps c)) = committed c"
proof (induction ps arbitrary: c)
  case Nil
  show ?case by (simp add: ret_def)
next
  case (Cons p ps)
  have "committed (snd (andthen (execute b (InsertTransactions p) (insert_transactions p))
          (\<lambda>_. execute_pages b ps) c)) = committed c"
    by (rule andthen_keeps [where P = "\<lambda>c'. committed c' = committed c"])
       (simp_all add: committed_execute Cons.IH)
  then show ?case by simp
qed

lemma committed_get_asset_id_map: "committed (snd (get_asset_id_map b c)) = committed c"
  unfolding get_asset_id_map_def
  by (rule andthen_keeps [where P = "\<lambda>c'. committed c' = committed c"])
     (simp_all add: committed_execute ret_def)

lemma commit_Inl:
  "commit b c = (Inl e, c') \<Longrightarrow> \<not> is_HTTPError e \<and> committed c' = committed c"
  by (auto simp: commit_def Let_def split: if_splits)

subsection \<open>The errors of a cycle\<close>

lemma execute_Inl:
  "execute b q f c = (Inl e, c') \<Longrightarrow>
     e = InterfaceError \<or> e = OperationalError \<or> e = InFailedSqlTransaction \<or>
     e = DatabaseError \<or> (\<exists>s n n'. f s n = (Inl e, n'))"
  by (auto simp: execute_def Let_def split: if_splits prod.splits sum.splits)

lemma place_rows_Inl: "place_rows page old n = (Inl e, n') \<Longrightarrow> e = UniqueViolation"
  by (induction page old n rule: place_rows.induct) (auto simp: Let_def split: if_splits)

lemma insert_transactions_Inl:
  "insert_transactions page s n = (Inl e, n') \<Longrightarrow> \<not> is_HTTPError e"
  by (auto simp: insert_transactions_def split: option.splits prod.splits sum.splits if_splits
           dest: place_rows_Inl)

lemma select_assets_Inl: "select_assets s n = (Inl e, n') \<Longrightarrow> \<not> is_HTTPError e"
  by (auto simp: select_assets_def split: option.splits)

lemma get_asset_id_map_Inl: "get_asset_id_map b c = (Inl e, c') \<Longrightarrow> \<not> is_HTTPError e"
  unfolding get_asset_id_map_def
  by (auto dest!: andthen_Inl execute_Inl select_assets_Inl simp: ret_def)

lemma execute_pages_Inl: "execute_pages b ps c = (Inl e, c') \<Longrightarrow> \<not> is_HTTPError e"
proof (induction ps arbitrary: c)
  case Nil
  then show ?case by (simp add: ret_def)
next
  case (Cons p ps)
  from Cons.prems show ?case
    by (auto dest!: andthen_Inl execute_Inl insert_transactions_Inl Cons.IH)
qed

lemma build_rows_Inl: "build_rows d m t = Inl e \<Longrightarrow> \<exists>k. e = KeyError k"
  by (induction d m t rule: build_rows.induct) (auto split: option.splits sum.splits)

text \<open>
  Once the fetch has returned, an error of the cycle is not an HTTP error, and the cycle
  has committed nothing.
\<close>

lemma ingest_once_after_fetch:
  assumes "fetch_prices (http env) = Inr d" and "ingest_once env c = (Inl e, c')"
  shows "\<not> is_HTTPError e \<and> committed c' = committed c"
proof -
  let ?g = "get_asset_id_map (hit (fault env) AtSelect)"
  let ?rest = "\<lambda>m. (case build_rows d m (utcnow env) of Inl e \<Rightarrow> throw e
         | Inr rows \<Rightarrow> andthen (execute_values (hit (fault env) AtInsert) rows)
             (\<lambda>_. andthen (commit (hit (fault env) AtCommit))
                (\<lambda>_. ret (length rows, utcnow env))))"
  from assms have
    "?g c = (Inl e, c') \<or> (\<exists>m c1. ?g c = (Inr m, c1) \<and> ?rest m c1 = (Inl e, c'))"
    by (auto simp: ingest_once_def dest: andthen_Inl)
  then show ?thesis
  proof
    assume a: "?g c = (Inl e, c')"
    then show ?thesis
      using committed_get_asset_id_map[of "hit (fault env) AtSelect" c] get_asset_id_map_Inl[OF a]
      by simp
  next
    assume "\<exists>m c1. ?g c = (Inr m, c1) \<and> ?rest m c1 = (Inl e, c')"
    then obtain m c1 where g: "?g c = (Inr m, c1)" and rest: "?rest m c1 = (Inl e, c')"
      by blast
    have c1: "committed c1 = committed c"
      using committed_get_asset_id_map[of "hit (fault env) AtSelect" c] g by simp
    show ?thesis
    proof (cases "build_rows d m (utcnow env)")
      case (Inl k)
      with rest c1 show ?thesis by (auto simp: throw_def dest: build_rows_Inl)
    next
      case (Inr rows)
      with rest have
        "execute_values (hit (fault env) AtInsert) rows c1 = (Inl e, c') \<or>
         (\<exists>c2. execute_values (hit (fault env) AtInsert) rows c1 = (Inr (), c2) \<and>
            commit (hit (fault env) AtCommit) c2 = (Inl e, c'))"
        by (auto dest!: andthen_Inl simp: ret_def)
      then show ?thesis
      proof
        assume a: "execute_values (hit (fault env) AtInsert) rows c1 = (Inl e, c')"
        then show ?thesis
          using committed_execute_pages[of "hit (fault env) AtInsert" "paginate 100 rows" c1] c1
          by (auto simp: execute_values_def dest: execute_pages_Inl)
      next
        assume "\<exists>c2. execute_values (hit (fault env) AtInsert) rows c1 = (Inr (), c2) \<and>
            commit (hit (fault env) AtCommit) c2 = (Inl e, c')"
        then obtain c2
          where a: "execute_values (hit (fault env) AtInsert) rows c1 = (Inr (), c2)"
            and b: "commit (hit (fault env) AtCommit) c2 = (Inl e, c')" by blast
        have "committed c2 = committed c"
          using committed_execute_pages[of "hit (fault env) AtInsert" "paginate 100 rows" c1] c1 a
          by (simp add: execute_values_def)
        with commit_Inl[OF b] show ?thesis by simp
      qed
    qed
  qed
qed

subsection \<open>The first run on an empty database\<close>

lemma ensure_schema_fresh: "ensure_schema fresh = (Inr (), created)"
  by (simp add: ensure_schema_def fresh_def empty_store_def created_def stmt_defs conn_defs)

lemma seed_created: "seed_reference_data created = (Inr (), seeded)"
  by (simp add: seed_reference_data_def ASSETS_def created_def seeded_def seeded_store_def
        stmt_defs conn_defs)

lemma paginate_one:
  assumes "xs \<noteq> []" and "length xs \<le> n"
  shows "paginate n xs = [xs]"
proof -
  have "0 < n" using assms by (cases xs) auto
  with assms show ?thesis by (subst paginate.simps, subst paginate.simps) simp
qed

subsection \<open>Fetch errors\<close>

lemma ingest_once_fetch_failed:
  "fetch_prices (http env) = Inl e \<Longrightarrow> ingest_once env c = (Inl e, c)"
  by (simp add: ingest_once_def throw_def)

text \<open>An HTTP error of a cycle comes from the fetch, before any call on the connection.\<close>

lemma ingest_once_HTTPError:
  assumes "fst (ingest_once env c) = Inl e" and "is_HTTPError e"
  shows "fetch_prices (http env) = Inl e \<and> ingest_once env c = (Inl e, c)"
proof (cases "fetch_prices (http env)")
  case (Inl e')
  with assms(1) show ?thesis by (simp add: ingest_once_fetch_failed)
next
  case (Inr d)
  obtain c' where "ingest_once env c = (Inl e, c')"
    using assms(1) by (cases "ingest_once env c") auto
  from ingest_once_after_fetch[OF Inr this] assms(2) show ?thesis by simp
qed

subsection \<open>The symbol dictionary and the row builder\<close>

lemma asset_map_None:
  "(map_of (rev (map (\<lambda>r. (a_symbol r, a_id r)) rs)) sy = None) = (sy \<notin> set (map a_symbol rs))"
  by (simp add: map_of_eq_None_iff image_iff comp_def)

lemma asset_map_Some:
  assumes "distinct (map a_symbol rs)" and "r \<in> set rs"
  shows "map_of (rev (map (\<lambda>r. (a_symbol r, a_id r)) rs)) (a_symbol r) = Some (a_id r)"
proof -
  have "distinct (map fst (rev (map (\<lambda>r. (a_symbol r, a_id r)) rs)))"
    using assms(1) by (simp add: rev_map[symmetric] comp_def)
  moreover have "(a_symbol r, a_id r) \<in> set (rev (map (\<lambda>r. (a_symbol r, a_id r)) rs))"
    using assms(2) by auto
  ultimately show ?thesis by (rule map_of_is_SomeI)
qed

lemma get_asset_id_map_ok:
  assumes "txn c \<noteq> Failed" and "txn c \<noteq> Closed" and "assets (view c) = Some rs"
  shows "get_asset_id_map None c =
           (Inr (map_of (rev (map (\<lambda>r. (a_symbol r, a_id r)) rs))),
            c\<lparr>txn := InTxn (view c), trace := trace c @ [Exec SelectAssets]\<rparr>)"
proof -
  have v: "view (c\<lparr>trace := trace c @ [Exec SelectAssets]\<rparr>) = view c"
    by (simp add: view_def split: txn.splits)
  show ?thesis
    using assms
    by (simp add: get_asset_id_map_def andthen_def execute_def ret_def select_assets_def v
          comp_def)
qed

text \<open>One entry whose lookups cannot all succeed makes the whole loop raise KeyError.\<close>

lemma build_rows_bad:
  assumes "(cg, payload) \<in> set d"
    and "map_of ASSETS cg = None \<or> (\<exists>sy nm. map_of ASSETS cg = Some (sy, nm) \<and> m sy = None)"
  shows "\<exists>k. build_rows d m t = Inl (KeyError k)"
  using assms(1)
proof (induction d)
  case Nil
  then show ?case by simp
next
  case (Cons x d)
  obtain cg_id pl where x: "x = (cg_id, pl)" by (cases x)
  show ?case
  proof (cases "build_rows (x # d) m t")
    case (Inl e)
    then show ?thesis using build_rows_Inl[OF Inl] by simp
  next
    case (Inr rows)
    then obtain sy nm aid where
      a: "map_of ASSETS cg_id = Some (sy, nm)" and b: "m sy = Some aid"
      and d: "\<exists>rows'. build_rows d m t = Inr rows'"
      unfolding x by (auto split: option.splits sum.splits)
    from a b assms(2) have "cg \<noteq> cg_id" by auto
    with Cons.prems x have "(cg, payload) \<in> set d" by simp
    from Cons.IH[OF this] d show ?thesis by auto
  qed
qed

subsection \<open>The bootstrap, and a batch of two rows\<close>

lemma ensure_schema_post:
  "ensure_schema c = (Inr (), c1) \<Longrightarrow> bootstrapped (committed c1) \<and> txn c1 = Idle"
  unfolding ensure_schema_def bootstrapped_def
  by (auto simp: stmt_defs conn_defs Let_def split: if_splits option.splits prod.splits sum.splits txn.splits)

lemma ensure_schema_noop:
  "bootstrapped (committed c) \<Longrightarrow> txn c = Idle \<Longrightarrow>
   ensure_schema c = (Inr (), c\<lparr>trace := trace c @ [Exec CreateUsers, Exec CreateAssets, Exec CreateTransactions,
        Exec CreateHypertable, Exec SelectIndex, Commit]\<rparr>)"
  unfolding ensure_schema_def bootstrapped_def
  by (auto simp: stmt_defs conn_defs Let_def split: if_splits option.splits prod.splits sum.splits txn.splits)

lemma ensure_schema_empty:
  "txn c = Idle \<Longrightarrow> committed c = empty_store \<Longrightarrow> fst (ensure_schema c) = Inr ()"
  by (simp add: ensure_schema_def empty_store_def stmt_defs conn_defs Let_def)

lemma place_rows_two:
  assumes "\<forall>r\<in>set old. t_id r \<le> n"
  shows "place_rows [(u1, a1, m1, p1, t1), (u2, a2, m2, p2, t2)] old n =
     (Inr (old @ [\<lparr>t_id = n + 1, user_id = u1, asset_id = a1, amount = m1, price_usd = p1, ts = t1\<rparr>,
                  \<lparr>t_id = n + 2, user_id = u2, asset_id = a2, amount = m2, price_usd = p2, ts = t2\<rparr>]),
      n + 2)"
  using assms by (auto simp: Let_def)

subsection \<open>What every statement and every operation preserves\<close>

lemma evolves_refl: "evolves s s"
  by (simp add: evolves_def extends_def)

lemma extends_trans: "extends a b \<Longrightarrow> extends b c \<Longrightarrow> extends a c"
  by (auto simp: extends_def)

lemma evolves_trans: "evolves a b \<Longrightarrow> evolves b c \<Longrightarrow> evolves a c"
  unfolding evolves_def using extends_trans by blast

lemma evolves_create_users: "users s = None \<Longrightarrow> evolves s (s\<lparr>users := Some []\<rparr>)"
  by (simp add: evolves_def extends_def integrity_def symbols_unique_def references_exist_def
        rows_of_def)

lemma evolves_create_assets: "assets s = None \<Longrightarrow> evolves s (s\<lparr>assets := Some []\<rparr>)"
  by (simp add: evolves_def extends_def integrity_def symbols_unique_def references_exist_def
        rows_of_def)

lemma evolves_create_transactions:
  "transactions s = None \<Longrightarrow> evolves s (s\<lparr>transactions := Some []\<rparr>)"
  by (simp add: evolves_def extends_def integrity_def symbols_unique_def references_exist_def
        rows_of_def)

lemma evolves_hypertable: "evolves s (s\<lparr>hypertable := b\<rparr>)"
  by (simp add: evolves_def extends_def integrity_def symbols_unique_def references_exist_def)

lemma evolves_create_index:
  "assets s = Some rs \<Longrightarrow> distinct (map a_symbol rs) \<Longrightarrow>
   evolves s (s\<lparr>assets_symbol_key := True\<rparr>)"
  by (simp add: evolves_def extends_def integrity_def symbols_unique_def references_exist_def
        rows_of_def)

lemma evolves_insert_user:
  assumes "users s = Some rs"
  shows "evolves s (s\<lparr>users := Some (rs @ [u])\<rparr>)"
proof -
  have "references_exist s \<Longrightarrow> references_exist (s\<lparr>users := Some (rs @ [u])\<rparr>)"
    using assms by (auto simp: references_exist_def rows_of_def list_all_iff)
  then show ?thesis
    by (auto simp: evolves_def extends_def integrity_def symbols_unique_def)
qed

lemma evolves_insert_asset:
  assumes "assets s = Some rs" and "a_symbol a \<notin> set (map a_symbol rs)"
  shows "evolves s (s\<lparr>assets := Some (rs @ [a])\<rparr>)"
proof -
  have r: "references_exist s \<Longrightarrow> references_exist (s\<lparr>assets := Some (rs @ [a])\<rparr>)"
    using assms(1) by (auto simp: references_exist_def rows_of_def list_all_iff)
  have u: "symbols_unique s \<Longrightarrow> symbols_unique (s\<lparr>assets := Some (rs @ [a])\<rparr>)"
    using assms by (simp add: symbols_unique_def rows_of_def)
  from r u show ?thesis
    by (auto simp: evolves_def extends_def integrity_def)
qed

lemma preserves_create_users: "preserves create_users"
  by (auto simp: preserves_def create_users_def evolves_refl evolves_create_users
        split: option.splits)

lemma preserves_create_assets: "preserves create_assets"
  by (auto simp: preserves_def create_assets_def evolves_refl evolves_create_assets
        split: option.splits)

lemma preserves_create_transactions: "preserves create_transactions"
  by (auto simp: preserves_def create_transactions_def evolves_refl evolves_create_transactions
        split: option.splits if_splits)

lemma preserves_create_hypertable: "preserves create_hypertable"
  by (auto simp: preserves_def create_hypertable_def evolves_refl evolves_hypertable
        split: option.splits if_splits)

lemma preserves_select_index: "preserves select_index"
  by (auto simp: preserves_def select_index_def evolves_refl)

lemma preserves_create_index: "preserves create_index"
  by (auto simp: preserves_def create_index_def evolves_create_index
        split: option.splits if_splits)

lemma preserves_select_assets: "preserves select_assets"
  by (auto simp: preserves_def select_assets_def evolves_refl split: option.splits)

lemma preserves_insert_user: "preserves (insert_user name)"
  by (auto simp: preserves_def insert_user_def Let_def evolves_refl evolves_insert_user
        split: option.splits if_splits)

lemma preserves_insert_asset: "preserves (insert_asset sy name)"
  by (auto simp: preserves_def insert_asset_def Let_def evolves_refl
        intro!: evolves_insert_asset split: option.splits if_splits)

lemma place_rows_Inr:
  "place_rows page old n = (Inr rs, n') \<Longrightarrow>
     \<exists>new. rs = old @ new \<and>
       map (\<lambda>r. (user_id r, asset_id r, amount r, price_usd r, ts r)) new = page"
proof (induction page arbitrary: old n)
  case Nil
  then show ?case by simp
next
  case (Cons x page)
  obtain u a amt p t where x: "x = (u, a, amt, p, t)" by (cases x)
  let ?r = "\<lparr>t_id = Suc n, user_id = u, asset_id = a, amount = amt, price_usd = p, ts = t\<rparr>"
  have rec: "place_rows page (old @ [?r]) (Suc n) = (Inr rs, n')"
    using Cons.prems unfolding x by (simp add: Let_def split: if_splits)
  from Cons.IH[OF rec] obtain new where
    a: "rs = (old @ [?r]) @ new" and
    b: "map (\<lambda>r. (user_id r, asset_id r, amount r, price_usd r, ts r)) new = page"
    by (elim exE conjE)
  show ?case
    by (rule exI[of _ "?r # new"]) (simp add: a b x)
qed

lemma preserves_insert_transactions: "preserves (insert_transactions page)"
proof -
  have "evolves s s'" if h: "insert_transactions page s q = (Inr (r, s'), q')"
    for s q r s' q'
  proof -
    from h obtain old where t: "transactions s = Some old"
      by (cases "transactions s") (simp_all add: insert_transactions_def)
    obtain res n where p: "place_rows page old (transactions_id_seq q) = (res, n)"
      by (cases "place_rows page old (transactions_id_seq q)")
    from h t p obtain rs where res: "res = Inr rs"
      by (cases res) (simp_all add: insert_transactions_def)
    from h t p res have ok: "list_all (refs_ok s) page"
      and s': "s' = s\<lparr>transactions := Some rs\<rparr>"
      by (simp_all add: insert_transactions_def split: if_splits)
    from place_rows_Inr[OF p[unfolded res]] obtain new where rs: "rs = old @ new"
      and m: "map (\<lambda>r. (user_id r, asset_id r, amount r, price_usd r, ts r)) new = page"
      by (elim exE conjE)
    have e: "extends s s'" using t rs s' by (simp add: extends_def rows_of_def)
    have "list_all (refs_ok s) (map (\<lambda>r. (user_id r, asset_id r, amount r, price_usd r, ts r)) new)"
      using ok m by simp
    then have n: "list_all (\<lambda>r. user_id r \<in> set (map u_id (rows_of (users s))) \<and>
                    asset_id r \<in> set (map a_id (rows_of (assets s)))) new"
      by (simp add: list_all_iff refs_ok_def)
    have i: "references_exist s \<Longrightarrow> references_exist s'"
      using t rs s' n by (simp add: references_exist_def rows_of_def)
    have u: "symbols_unique s' = symbols_unique s" using s' by (simp add: symbols_unique_def)
    have k: "assets_symbol_key s' = assets_symbol_key s" using s' by simp
    show ?thesis using e i u k by (auto simp: evolves_def integrity_def)
  qed
  then show ?thesis unfolding preserves_def by fast
qed

lemma view_simps:
  "view (c\<lparr>trace := tr\<rparr>) = view c"
  "view (c\<lparr>sequences := n\<rparr>) = view c"
  "view (c\<lparr>txn := InTxn s\<rparr>) = s"
  "view (c\<lparr>txn := Failed\<rparr>) = committed c"
  "view (c\<lparr>txn := Idle\<rparr>) = committed c"
  "view (c\<lparr>txn := Closed\<rparr>) = committed c"
  by (simp_all add: view_def split: txn.splits)

lemma inv_execute:
  assumes "preserves f" and "inv k c"
  shows "inv k (snd (execute b q f c))"
proof -
  let ?c = "c\<lparr>trace := trace c @ [Exec q]\<rparr>"
  have ic: "evolves k (committed c)" and iv: "evolves k (view c)"
    using assms(2) by (simp_all add: inv_def)
  show ?thesis
  proof (cases "txn c = Closed \<or> b = Some Lost \<or> txn c = Failed \<or> b = Some Refused")
    case True
    then show ?thesis using ic iv by (auto simp: execute_def inv_def view_simps Let_def)
  next
    case False
    obtain res n where f: "f (view c) (sequences c) = (res, n)"
      by (cases "f (view c) (sequences c)")
    show ?thesis
    proof (cases res)
      case (Inl e)
      with False f ic show ?thesis by (simp add: execute_def inv_def view_simps Let_def)
    next
      case (Inr p)
      obtain r s' where p: "p = (r, s')" by (cases p)
      from assms(1) f Inr p have "evolves (view c) s'"
        unfolding preserves_def by fast
      with iv have "evolves k s'" by (rule evolves_trans)
      with False f Inr p ic show ?thesis by (simp add: execute_def inv_def view_simps Let_def)
    qed
  qed
qed

lemma inv_commit: "inv k c \<Longrightarrow> inv k (snd (commit b c))"
  by (simp add: commit_def inv_def Let_def view_simps)

lemma inv_rollback: "inv k c \<Longrightarrow> inv k (snd (rollback c))"
  by (simp add: rollback_def inv_def view_simps Let_def)

lemma inv_close: "inv k c \<Longrightarrow> inv k (close c)"
  by (simp add: close_def inv_def view_simps)

lemma inv_ret: "inv k c \<Longrightarrow> inv k (snd (ret x c))"
  by (simp add: ret_def)

lemmas preserves_all = preserves_create_users preserves_create_assets
  preserves_create_transactions preserves_create_hypertable preserves_select_index
  preserves_create_index preserves_select_assets preserves_insert_user
  preserves_insert_asset preserves_insert_transactions

lemma inv_ensure_schema: "inv k c \<Longrightarrow> inv k (snd (ensure_schema c))"
  unfolding ensure_schema_def
  by (intro andthen_keeps [where P = "inv k"] inv_execute inv_commit inv_ret preserves_all)
     (simp_all add: inv_execute inv_commit inv_ret preserves_all)

lemma inv_seed_assets: "inv k c \<Longrightarrow> inv k (snd (seed_assets xs c))"
proof (induction xs arbitrary: c)
  case Nil
  then show ?case by (simp add: ret_def)
next
  case (Cons x xs)
  obtain cg sy nm where x: "x = (cg, sy, nm)" by (cases x)
  have "inv k (snd (andthen (execute None (InsertAsset sy nm) (insert_asset sy nm))
                 (\<lambda>_. seed_assets xs) c))"
    by (rule andthen_keeps [where P = "inv k"])
       (simp_all add: inv_execute preserves_insert_asset Cons)
  then show ?case by (simp add: x)
qed

lemma inv_seed_reference_data: "inv k c \<Longrightarrow> inv k (snd (seed_reference_data c))"
  unfolding seed_reference_data_def
  by (intro andthen_keeps [where P = "inv k"])
     (simp_all add: inv_execute inv_commit inv_seed_assets preserves_insert_user)

lemma inv_get_asset_id_map: "inv k c \<Longrightarrow> inv k (snd (get_asset_id_map b c))"
  unfolding get_asset_id_map_def
  by (intro andthen_keeps [where P = "inv k"])
     (simp_all add: inv_execute inv_ret preserves_select_assets)

lemma inv_execute_pages: "inv k c \<Longrightarrow> inv k (snd (execute_pages b ps c))"
proof (induction ps arbitrary: c)
  case Nil
  then show ?case by (simp add: ret_def)
next
  case (Cons p ps)
  have "inv k (snd (andthen (execute b (InsertTransactions p) (insert_transactions p))
                 (\<lambda>_. execute_pages b ps) c))"
    by (rule andthen_keeps [where P = "inv k"])
       (simp_all add: inv_execute preserves_insert_transactions Cons)
  then show ?case by simp
qed

lemma inv_ingest_once:
  assumes "inv k c"
  shows "inv k (snd (ingest_once env c))"
proof (cases "fetch_prices (http env)")
  case (Inl e)
  then show ?thesis using assms by (simp add: ingest_once_def throw_def)
next
  case (Inr d)
  have rest: "inv k (snd ((case build_rows d m (utcnow env) of
               Inl e \<Rightarrow> throw e
             | Inr rows \<Rightarrow>
                 andthen (execute_values (hit (fault env) AtInsert) rows) (\<lambda>_.
                 andthen (commit (hit (fault env) AtCommit)) (\<lambda>_.
                 ret (length rows, utcnow env)))) c'))" if "inv k c'" for m c'
  proof (cases "build_rows d m (utcnow env)")
    case (Inl e)
    then show ?thesis using that by (simp add: throw_def)
  next
    case (Inr rows)
    have "inv k (snd (andthen (execute_values (hit (fault env) AtInsert) rows) (\<lambda>_.
                 andthen (commit (hit (fault env) AtCommit)) (\<lambda>_.
                 ret (length rows, utcnow env))) c'))"
      by (intro andthen_keeps [where P = "inv k"])
         (simp_all add: execute_values_def inv_execute_pages inv_commit inv_ret that)
    then show ?thesis using Inr by simp
  qed
  have "inv k (snd (andthen (get_asset_id_map (hit (fault env) AtSelect))
      (\<lambda>m. (case build_rows d m (utcnow env) of
               Inl e \<Rightarrow> throw e
             | Inr rows \<Rightarrow>
                 andthen (execute_values (hit (fault env) AtInsert) rows) (\<lambda>_.
                 andthen (commit (hit (fault env) AtCommit)) (\<lambda>_.
                 ret (length rows, utcnow env))))) c))"
    by (rule andthen_keeps [where P = "inv k"]) (simp_all add: inv_get_asset_id_map rest assms)
  then show ?thesis using Inr by (simp add: ingest_once_def)
qed

lemma inv_cycle: "inv k c \<Longrightarrow> inv k (snd (cycle env c))"
proof -
  assume i: "inv k c"
  obtain r c1 where a: "ingest_once env c = (r, c1)" by (cases "ingest_once env c")
  have i1: "inv k c1" using inv_ingest_once[OF i, of env] a by simp
  obtain r2 c2 where b: "rollback c1 = (r2, c2)" by (cases "rollback c1")
  have i2: "inv k c2" using inv_rollback[OF i1] b by simp
  show ?thesis using a b i1 i2 by (auto simp: cycle_def split: sum.splits)
qed

lemma inv_step: "step c c' \<Longrightarrow> inv k c \<Longrightarrow> inv k c'"
  by (induction rule: step.induct)
     (simp_all add: inv_ensure_schema inv_seed_reference_data inv_cycle inv_close)

lemma inv_steps: "rtranclp step c c' \<Longrightarrow> inv k c \<Longrightarrow> inv k c'"
  by (induction rule: rtranclp_induct) (auto intro: inv_step)

lemma inv_start: "txn c = Idle \<Longrightarrow> inv (committed c) c"
  by (simp add: inv_def view_def evolves_refl)

subsection \<open>The rollback and the loop\<close>

lemma andthen_Inr:
  "andthen m f c = (Inr y, c') \<Longrightarrow> \<exists>x c1. m c = (Inr x, c1) \<and> f x c1 = (Inr y, c')"
  by (auto simp: andthen_def split: prod.splits sum.splits)

lemma rollback_open:
  "txn c \<noteq> Closed \<Longrightarrow>
   rollback c = (Inr (), c\<lparr>txn := Idle, trace := trace c @ [Rollback]\<rparr>)"
  by (simp add: rollback_def Let_def)

lemma rollback_closed:
  "txn c = Closed \<Longrightarrow>
   rollback c = (Inl InterfaceError, c\<lparr>trace := trace c @ [Rollback]\<rparr>)"
  by (simp add: rollback_def Let_def)

text \<open>A pass that no exception leaves is followed by the next pass.\<close>

lemma loop_goes_on:
  assumes "cycle env c = ((out, None), c')"
  shows "loop [Tick env] c printed = (Polling, c', printed @ [out])"
    and "loop (Tick env # evs) c printed = loop evs c' (printed @ [out])"
  using assms by simp_all

lemma loop_ends:
  "cycle env c = ((out, Some e), c') \<Longrightarrow>
   loop (Tick env # evs) c printed = (Raised e, c', printed @ [out])"
  by simp

lemma cycle_fetch_failed:
  assumes "fetch_prices (http env) = Inl e" and "txn c \<noteq> Closed"
  shows "cycle env c =
           (if is_HTTPError e then ((HttpWarning e, None), c)
            else ((IngestError e, None), c\<lparr>txn := Idle, trace := trace c @ [Rollback]\<rparr>))"
  using assms by (simp add: cycle_def ingest_once_fetch_failed rollback_open)

text \<open>
  When the fetch has returned and a later step fails with the connection still open, the
  rollback returns and the pass ends without an exception.
\<close>

lemma cycle_rollback_branch:
  assumes "fetch_prices (http env) = Inr d" and "ingest_once env c = (Inl e, c1)"
    and "txn c1 \<noteq> Closed"
  shows "cycle env c =
           ((IngestError e, None), c1\<lparr>txn := Idle, trace := trace c1 @ [Rollback]\<rparr>)"
    and "committed c1 = committed c"
  using ingest_once_after_fetch[OF assms(1,2)] assms(2,3)
  by (simp_all add: cycle_def rollback_open)

text \<open>
  The loop starts every pass on an open connection: \<^verbatim>\<open>main\<close> enters the loop after the
  commit of \<^verbatim>\<open>seed_reference_data\<close>, and a pass that no exception leaves ends with the
  connection open.
\<close>

lemma commit_Inr: "commit b c = (Inr x, c') \<Longrightarrow> txn c' = Idle"
  by (auto simp: commit_def Let_def split: if_splits)

lemma seed_reference_data_Inr: "seed_reference_data c = (Inr x, c') \<Longrightarrow> txn c' = Idle"
  unfolding seed_reference_data_def
  by (auto dest!: andthen_Inr commit_Inr)

lemma ingest_once_Inr: "ingest_once env c = (Inr x, c') \<Longrightarrow> txn c' = Idle"
  unfolding ingest_once_def
  by (auto simp: throw_def ret_def split: sum.splits dest!: andthen_Inr commit_Inr)

lemma cycle_open:
  assumes "cycle env c = ((out, None), c')" and "txn c \<noteq> Closed"
  shows "txn c' \<noteq> Closed"
proof -
  obtain r c1 where a: "ingest_once env c = (r, c1)" by (cases "ingest_once env c")
  show ?thesis
  proof (cases r)
    case (Inr x)
    with a assms(1) have "c' = c1" by (simp add: cycle_def split: prod.splits)
    with ingest_once_Inr[of env c x c1] a Inr show ?thesis by simp
  next
    case (Inl e)
    show ?thesis
    proof (cases "is_HTTPError e")
      case True
      with ingest_once_HTTPError[of env c e] a Inl have "c1 = c" by simp
      with a Inl True assms show ?thesis by (simp add: cycle_def)
    next
      case False
      with a Inl assms(1) have "rollback c1 = (Inr (), c')"
        by (auto simp: cycle_def split: prod.splits sum.splits)
      then show ?thesis by (auto simp: rollback_def Let_def split: if_splits)
    qed
  qed
qed

lemma loop_open:
  "loop evs c printed = (Polling, c', printed') \<Longrightarrow> txn c \<noteq> Closed \<Longrightarrow> txn c' \<noteq> Closed"
proof (induction evs c printed rule: loop.induct)
  case (1 c printed)
  then show ?case by simp
next
  case (2 evs c printed)
  then show ?case by simp
next
  case (3 env evs c printed)
  obtain out x c1 where a: "cycle env c = ((out, x), c1)"
    by (cases "cycle env c") auto
  show ?case
  proof (cases x)
    case None
    from cycle_open[OF a[unfolded None] "3.prems"(2)] have o: "txn c1 \<noteq> Closed" .
    from "3.prems"(1) a None have "loop evs c1 (printed @ [out]) = (Polling, c', printed')"
      by simp
    from "3.IH"[OF a[symmetric] _ _ this o] None show ?thesis by simp
  next
    case (Some e)
    with "3.prems"(1) a show ?thesis by simp
  qed
qed

lemma pass_starts_open:
  assumes "seed_reference_data c1 = (Inr u, c2)"
    and "loop evs c2 [] = (Polling, c, printed)"
  shows "txn c \<noteq> Closed"
  using loop_open[OF assms(2)] seed_reference_data_Inr[OF assms(1)] by simp

subsection \<open>The example run\<close>

lemma connect_example: "connect example_world ''postgres://db'' = Inr fresh"
  by (simp add: connect_def example_world_def fresh_def)

lemma cycle_seeded: "cycle example_env seeded = ((Inserted 2 42, None), polled)"
  by (simp add: cycle_def ingest_once_def example_env_def example_prices_def fetch_prices_def
        utcnow_def get_asset_id_map_def ASSETS_def seeded_def seeded_store_def created_def
        polled_def execute_values_def paginate_one refs_ok_def rows_of_def stmt_defs conn_defs)

lemma restarted_eq:
  "restarted =
     \<lparr>committed = seeded_store\<lparr>users := Some [\<lparr>u_id = 2, u_name = ''Sarah''\<rparr>]\<rparr>,
      txn = Idle,
      sequences = \<lparr>users_id_seq = 2, assets_id_seq = 2, transactions_id_seq = 0\<rparr>,
      trace = [Exec CreateUsers, Exec CreateAssets, Exec CreateTransactions,
               Exec CreateHypertable, Exec SelectIndex, Commit,
               Exec (InsertUser ''Sarah''), Exec (InsertAsset ''BTC'' ''Bitcoin''),
               Exec (InsertAsset ''ETH'' ''Ethereum''), Commit]\<rparr>"
  by (simp add: restarted_def burnt_def ensure_schema_def seed_reference_data_def ASSETS_def
        created_def seeded_store_def stmt_defs conn_defs)

section \<open>The claims\<close>

subsection \<open>Seeding twice\<close>

text \<open>
  Claim C2 says that seeding twice leaves exactly one actor row and one asset row per
  configured symbol. On the store that a first run has bootstrapped and seeded, a second
  \<^verbatim>\<open>seed_reference_data\<close> succeeds and leaves the assets as they were, but it adds a
  second actor row named Sarah: the insert into \<^verbatim>\<open>users\<close> names no column with a unique
  constraint, so \<^verbatim>\<open>ON CONFLICT DO NOTHING\<close> never finds a conflict on the name.
\<close>

theorem seed_twice_two_actors:
  "fst (seed_reference_data seeded) = Inr () \<and>
   users (committed (snd (seed_reference_data seeded))) =
     Some [\<lparr>u_id = 1, u_name = ''Sarah''\<rparr>, \<lparr>u_id = 2, u_name = ''Sarah''\<rparr>] \<and>
   assets (committed (snd (seed_reference_data seeded))) = assets (committed seeded)"
  by (simp add: seed_reference_data_def ASSETS_def created_def seeded_def seeded_store_def
        stmt_defs conn_defs)

subsection \<open>A persistence failure after a successful fetch\<close>

text \<open>
  Claim C3 says that when the persistence step fails after a successful fetch, the cycle
  commits no observation row and the loop proceeds to the next interval; the comment of
  the handler in \<^verbatim>\<open>main\<close> says the same: rollback this cycle but keep running. The cycle
  commits no row. But when the step fails because the connection to the server is lost,
  here during the \<^verbatim>\<open>INSERT\<close> of a first run on the example answer, psycopg2 holds the
  connection closed, \<^verbatim>\<open>conn.rollback()\<close> in the handler raises InterfaceError, and no
  handler catches it: the exception leaves \<^verbatim>\<open>while True\<close>, the next pass never runs,
  and the program ends.
\<close>

theorem lost_connection_ends_loop:
  "fetch_prices (http (example_env\<lparr>fault := Fails AtInsert Lost\<rparr>)) = Inr example_prices \<and>
   fst (ingest_once (example_env\<lparr>fault := Fails AtInsert Lost\<rparr>) seeded) =
     Inl OperationalError \<and>
   cycle (example_env\<lparr>fault := Fails AtInsert Lost\<rparr>) seeded =
     ((IngestError OperationalError, Some InterfaceError),
      seeded\<lparr>txn := Closed,
             trace := trace seeded @
               [Exec SelectAssets,
                Exec (InsertTransactions [(1, 1, 1, 67000, 42), (1, 2, 1, 3500, 42)]),
                Rollback]\<rparr>) \<and>
   committed (snd (cycle (example_env\<lparr>fault := Fails AtInsert Lost\<rparr>) seeded)) =
     seeded_store \<and>
   loop [Tick (example_env\<lparr>fault := Fails AtInsert Lost\<rparr>), Tick example_env] seeded [] =
     (Raised InterfaceError,
      seeded\<lparr>txn := Closed,
             trace := trace seeded @
               [Exec SelectAssets,
                Exec (InsertTransactions [(1, 1, 1, 67000, 42), (1, 2, 1, 3500, 42)]),
                Rollback]\<rparr>,
      [IngestError OperationalError]) \<and>
   fst (program example_world
          [Tick (example_env\<lparr>fault := Fails AtInsert Lost\<rparr>), Tick example_env]) =
     Raised InterfaceError \<and>
   snd (snd (snd (program example_world
          [Tick (example_env\<lparr>fault := Fails AtInsert Lost\<rparr>), Tick example_env]))) =
     [IngestError OperationalError]"
proof -
  let ?env = "example_env\<lparr>fault := Fails AtInsert Lost\<rparr>"
  let ?c = "seeded\<lparr>txn := Closed,
             trace := trace seeded @
               [Exec SelectAssets,
                Exec (InsertTransactions [(1, 1, 1, 67000, 42), (1, 2, 1, 3500, 42)]),
                Rollback]\<rparr>"
  have f: "fetch_prices (http ?env) = Inr example_prices"
    by (simp add: example_env_def fetch_prices_def)
  have i: "ingest_once ?env seeded =
      (Inl OperationalError,
       seeded\<lparr>txn := Closed,
              trace := trace seeded @
                [Exec SelectAssets,
                 Exec (InsertTransactions [(1, 1, 1, 67000, 42), (1, 2, 1, 3500, 42)])]\<rparr>)"
    by (simp add: ingest_once_def example_env_def example_prices_def fetch_prices_def
          utcnow_def get_asset_id_map_def ASSETS_def seeded_def seeded_store_def created_def
          execute_values_def paginate_one stmt_defs conn_defs)
  have c: "cycle ?env seeded = ((IngestError OperationalError, Some InterfaceError), ?c)"
    by (simp add: cycle_def i rollback_def)
  have k: "committed ?c = seeded_store" by (simp add: seeded_def)
  have l: "loop [Tick ?env, Tick example_env] seeded [] =
      (Raised InterfaceError, ?c, [IngestError OperationalError])"
    using loop_ends[OF c, of "[Tick example_env]" "[]"] by simp
  have p: "program example_world [Tick ?env, Tick example_env] =
      leave example_world (Raised InterfaceError) (close ?c) [IngestError OperationalError]"
    using c
    by (simp add: program_def PGURL_def main_def connect_example ensure_schema_fresh
          seed_created example_world_def[THEN arg_cong, of environ])
  from f i c k l p show ?thesis by (simp add: leave_def)
qed

subsection \<open>Startup failures\<close>

text \<open>
  Claim C9: when the environment variable is absent or empty, the module raises
  RuntimeError at import; when the server refuses the connection, \<^verbatim>\<open>main\<close> raises
  OperationalError out of \<^verbatim>\<open>psycopg2.connect\<close>. In both cases the run ends before the
  loop, with the world unchanged, no call made on any connection and no line printed by
  the loop.
\<close>

theorem startup_failure_is_fatal:
  "(environ w = None \<or> environ w = Some [] \<longrightarrow>
      program w evs = (Raised RuntimeError, w, [], [])) \<and>
   (\<forall>url. environ w = Some url \<and> url \<noteq> [] \<and> \<not> accepts w url \<longrightarrow>
      program w evs = (Raised OperationalError, w, [], []))"
  by (auto simp: program_def PGURL_def main_def connect_def)

theorem startup_failure_is_fatal_witness:
  "environ (example_world\<lparr>environ := None\<rparr>) = None \<and>
   program (example_world\<lparr>environ := None\<rparr>) [Tick example_env] =
     (Raised RuntimeError, example_world\<lparr>environ := None\<rparr>, [], []) \<and>
   environ (example_world\<lparr>accepts := (\<lambda>url. False)\<rparr>) = Some ''postgres://db'' \<and>
   \<not> accepts (example_world\<lparr>accepts := (\<lambda>url. False)\<rparr>) ''postgres://db'' \<and>
   program (example_world\<lparr>accepts := (\<lambda>url. False)\<rparr>) [Tick example_env] =
     (Raised OperationalError, example_world\<lparr>accepts := (\<lambda>url. False)\<rparr>, [], [])"
proof -
  note a = startup_failure_is_fatal[of "example_world\<lparr>environ := None\<rparr>" "[Tick example_env]"]
  note b = startup_failure_is_fatal[of "example_world\<lparr>accepts := (\<lambda>url. False)\<rparr>"
             "[Tick example_env]"]
  have e: "environ (example_world\<lparr>accepts := (\<lambda>url. False)\<rparr>) = Some ''postgres://db''"
    by (simp add: example_world_def)
  from a have 1: "program (example_world\<lparr>environ := None\<rparr>) [Tick example_env] =
     (Raised RuntimeError, example_world\<lparr>environ := None\<rparr>, [], [])" by simp
  from b e have 2: "program (example_world\<lparr>accepts := (\<lambda>url. False)\<rparr>) [Tick example_env] =
     (Raised OperationalError, example_world\<lparr>accepts := (\<lambda>url. False)\<rparr>, [], [])" by simp
  from 1 2 e show ?thesis by simp
qed

subsection \<open>A failed fetch\<close>

text \<open>
  Claim C4 says that a cycle whose fetch meets a non-2xx status adds no observation row.
  \<^verbatim>\<open>raise_for_status\<close> raises for the statuses from 400 to 599 only: an answer with
  status 300 and the example prices as its body passes it, \<^verbatim>\<open>r.json()\<close> returns the
  prices, and the cycle inserts its two rows.
\<close>

theorem other_status_inserts_rows:
  "fetch_prices (Response 300 (Some example_prices)) = Inr example_prices \<and>
   fst (cycle (example_env\<lparr>http := Response 300 (Some example_prices)\<rparr>) seeded) =
     (Inserted 2 42, None) \<and>
   transactions
     (committed (snd (cycle (example_env\<lparr>http := Response 300 (Some example_prices)\<rparr>)
        seeded))) =
     Some [\<lparr>t_id = 1, user_id = 1, asset_id = 1, amount = 1, price_usd = 67000, ts = 42\<rparr>,
           \<lparr>t_id = 2, user_id = 1, asset_id = 2, amount = 1, price_usd = 3500, ts = 42\<rparr>]"
  by (simp add: cycle_def ingest_once_def example_env_def example_prices_def fetch_prices_def
        utcnow_def get_asset_id_map_def ASSETS_def seeded_def seeded_store_def created_def
        execute_values_def paginate_one refs_ok_def rows_of_def stmt_defs conn_defs)

text \<open>
  Claim C4, amended: the fetch fails on every status from 400 to 599 and on a timeout.
  In every cycle in which \<^verbatim>\<open>fetch_prices\<close> fails, on the open connection on which the
  loop starts each of its passes (\<open>pass_starts_open\<close>), the cycle makes no call on the
  connection but, in the rollback branch, the rollback, which returns; the committed
  store, and so the \<^verbatim>\<open>transactions\<close> table, is unchanged; no exception leaves the pass,
  the loop is still polling after it, and the next pass starts on the connection that
  this one has left.
\<close>

theorem fetch_failure_adds_no_rows:
  assumes "fetch_prices (http env) = Inl e" and "txn c \<noteq> Closed"
  shows "cycle env c =
           (if is_HTTPError e then ((HttpWarning e, None), c)
            else ((IngestError e, None), c\<lparr>txn := Idle, trace := trace c @ [Rollback]\<rparr>)) \<and>
         committed (snd (cycle env c)) = committed c \<and>
         trace (snd (cycle env c)) = trace c @ (if is_HTTPError e then [] else [Rollback]) \<and>
         loop [Tick env] c printed =
           (Polling, snd (cycle env c),
            printed @ [if is_HTTPError e then HttpWarning e else IngestError e]) \<and>
         loop (Tick env # evs) c printed =
           loop evs (snd (cycle env c))
             (printed @ [if is_HTTPError e then HttpWarning e else IngestError e]) \<and>
         fetch_prices TimedOut = Inl Timeout \<and>
         (\<forall>st body. 400 \<le> st \<and> st < 600 \<longrightarrow>
            fetch_prices (Response st body) = Inl (HTTPError st))"
proof -
  note cy = cycle_fetch_failed[OF assms]
  have 1: "committed (snd (cycle env c)) = committed c" using cy by simp
  have 2: "trace (snd (cycle env c)) = trace c @ (if is_HTTPError e then [] else [Rollback])"
    using cy by simp
  have cy': "cycle env c =
      ((if is_HTTPError e then HttpWarning e else IngestError e, None), snd (cycle env c))"
    using cy by simp
  note l = loop_goes_on[OF cy']
  have 3: "fetch_prices TimedOut = Inl Timeout" by (simp add: fetch_prices_def)
  have 4: "\<forall>st body. 400 \<le> st \<and> st < 600 \<longrightarrow>
            fetch_prices (Response st body) = Inl (HTTPError st)"
    by (simp add: fetch_prices_def)
  from cy 1 2 l(1)[of printed] l(2)[of evs printed] 3 4 show ?thesis by blast
qed

theorem fetch_failure_adds_no_rows_witness:
  "fetch_prices (http (example_env\<lparr>http := Response 503 None\<rparr>)) = Inl (HTTPError 503) \<and>
   txn seeded \<noteq> Closed \<and>
   cycle (example_env\<lparr>http := Response 503 None\<rparr>) seeded =
     ((HttpWarning (HTTPError 503), None), seeded) \<and>
   loop [Tick (example_env\<lparr>http := Response 503 None\<rparr>)] seeded [] =
     (Polling, seeded, [HttpWarning (HTTPError 503)]) \<and>
   fetch_prices (http (example_env\<lparr>http := TimedOut\<rparr>)) = Inl Timeout \<and>
   cycle (example_env\<lparr>http := TimedOut\<rparr>) seeded =
     ((IngestError Timeout, None), seeded\<lparr>trace := trace seeded @ [Rollback]\<rparr>) \<and>
   loop [Tick (example_env\<lparr>http := TimedOut\<rparr>)] seeded [] =
     (Polling, seeded\<lparr>trace := trace seeded @ [Rollback]\<rparr>, [IngestError Timeout]) \<and>
   committed (seeded\<lparr>trace := trace seeded @ [Rollback]\<rparr>) = committed seeded"
proof -
  let ?a = "example_env\<lparr>http := Response 503 None\<rparr>"
  let ?b = "example_env\<lparr>http := TimedOut\<rparr>"
  have a: "fetch_prices (http ?a) = Inl (HTTPError 503)"
    by (simp add: fetch_prices_def)
  have b: "fetch_prices (http ?b) = Inl Timeout"
    by (simp add: fetch_prices_def)
  have o: "txn seeded \<noteq> Closed" by (simp add: seeded_def)
  have r: "seeded\<lparr>txn := Idle, trace := trace seeded @ [Rollback]\<rparr> =
           seeded\<lparr>trace := trace seeded @ [Rollback]\<rparr>"
    by (simp add: seeded_def)
  note ta = fetch_failure_adds_no_rows[OF a o, of "[]" "[]"]
  note tb = fetch_failure_adds_no_rows[OF b o, of "[]" "[]"]
  from ta have 1: "cycle ?a seeded = ((HttpWarning (HTTPError 503), None), seeded)"
    by simp
  from ta 1 have 2: "loop [Tick ?a] seeded [] = (Polling, seeded, [HttpWarning (HTTPError 503)])"
    by simp
  from tb r have 3: "cycle ?b seeded =
      ((IngestError Timeout, None), seeded\<lparr>trace := trace seeded @ [Rollback]\<rparr>)"
    by simp
  from tb 3 have 4: "loop [Tick ?b] seeded [] =
      (Polling, seeded\<lparr>trace := trace seeded @ [Rollback]\<rparr>, [IngestError Timeout])"
    by simp
  from a b o 1 2 3 4 show ?thesis by simp
qed

subsection \<open>The two handlers\<close>

text \<open>
  Claim C5 says that a non-success status and a timeout both fail with an HTTP error kind
  and are both handled by the network-error branch, without a rollback. On a timeout
  \<^verbatim>\<open>requests.get\<close> raises a Timeout, which is not an \<^verbatim>\<open>HTTPError\<close>: the cycle takes the
  rollback branch, and \<^verbatim>\<open>conn.rollback()\<close> is called.
\<close>

theorem timeout_takes_rollback_branch:
  "fetch_prices TimedOut = Inl Timeout \<and>
   \<not> is_HTTPError Timeout \<and>
   cycle (example_env\<lparr>http := TimedOut\<rparr>) seeded =
     ((IngestError Timeout, None), seeded\<lparr>trace := trace seeded @ [Rollback]\<rparr>) \<and>
   fst (fst (cycle (example_env\<lparr>http := TimedOut\<rparr>) seeded)) \<noteq> HttpWarning Timeout \<and>
   trace (snd (cycle (example_env\<lparr>http := TimedOut\<rparr>) seeded)) = trace seeded @ [Rollback]"
  by (simp add: fetch_prices_def cycle_def ingest_once_def throw_def rollback_def seeded_def)

text \<open>
  Claim C5, amended: the fetch fails with an \<^verbatim>\<open>HTTPError\<close> exactly on a status from 400
  to 599, and with a Timeout, which is not an \<^verbatim>\<open>HTTPError\<close>, on a timeout. An
  \<^verbatim>\<open>HTTPError\<close> of a cycle is handled by the HTTP branch, which leaves the connection
  as it was (no rollback), and the loop is still polling after the pass. A timeout and
  every other error take the rollback branch: the line is printed and
  \<^verbatim>\<open>conn.rollback()\<close> is called. When that call returns, as it does on a connection
  that is open, the loop is still polling after the pass and the next pass starts on the
  connection rolled back. The statement says nothing of a pass in which the call raises.
\<close>

theorem error_branches:
  "((\<exists>e. fetch_prices h = Inl e \<and> is_HTTPError e) =
      (\<exists>st body. h = Response st body \<and> 400 \<le> st \<and> st < 600)) \<and>
   fetch_prices TimedOut = Inl Timeout \<and>
   (fst (ingest_once env c) = Inl e \<and> is_HTTPError e \<longrightarrow>
      cycle env c = ((HttpWarning e, None), c) \<and>
      loop [Tick env] c printed = (Polling, c, printed @ [HttpWarning e]) \<and>
      loop (Tick env # evs) c printed = loop evs c (printed @ [HttpWarning e])) \<and>
   (fst (ingest_once env c) = Inl e \<and> \<not> is_HTTPError e \<longrightarrow>
      fst (fst (cycle env c)) = IngestError e \<and>
      trace (snd (cycle env c)) = trace (snd (ingest_once env c)) @ [Rollback]) \<and>
   (fst (ingest_once env c) = Inl e \<and> \<not> is_HTTPError e \<and>
    txn (snd (ingest_once env c)) \<noteq> Closed \<longrightarrow>
      cycle env c =
        ((IngestError e, None),
         (snd (ingest_once env c))\<lparr>txn := Idle,
            trace := trace (snd (ingest_once env c)) @ [Rollback]\<rparr>) \<and>
      loop [Tick env] c printed =
        (Polling,
         (snd (ingest_once env c))\<lparr>txn := Idle,
            trace := trace (snd (ingest_once env c)) @ [Rollback]\<rparr>,
         printed @ [IngestError e]) \<and>
      loop (Tick env # evs) c printed =
        loop evs
          ((snd (ingest_once env c))\<lparr>txn := Idle,
             trace := trace (snd (ingest_once env c)) @ [Rollback]\<rparr>)
          (printed @ [IngestError e]))"
proof -
  obtain r c1 where i: "ingest_once env c = (r, c1)" by (cases "ingest_once env c")
  have 1: "(\<exists>e. fetch_prices h = Inl e \<and> is_HTTPError e) =
      (\<exists>st body. h = Response st body \<and> 400 \<le> st \<and> st < 600)"
    by (cases h) (auto simp: fetch_prices_def split: option.splits)
  have 2: "fetch_prices TimedOut = Inl Timeout" by (simp add: fetch_prices_def)
  have 3: "cycle env c = ((HttpWarning e, None), c) \<and>
      loop [Tick env] c printed = (Polling, c, printed @ [HttpWarning e]) \<and>
      loop (Tick env # evs) c printed = loop evs c (printed @ [HttpWarning e])"
    if h: "fst (ingest_once env c) = Inl e \<and> is_HTTPError e"
  proof -
    from h ingest_once_HTTPError[of env c e]
    have cy: "cycle env c = ((HttpWarning e, None), c)" by (auto simp: cycle_def)
    from cy loop_goes_on[OF cy] show ?thesis by simp
  qed
  have 4: "fst (fst (cycle env c)) = IngestError e \<and>
      trace (snd (cycle env c)) = trace (snd (ingest_once env c)) @ [Rollback]"
    if h: "fst (ingest_once env c) = Inl e \<and> \<not> is_HTTPError e"
    using h i by (auto simp: cycle_def rollback_def Let_def split: prod.splits sum.splits)
  have 5: "cycle env c =
        ((IngestError e, None),
         (snd (ingest_once env c))\<lparr>txn := Idle,
            trace := trace (snd (ingest_once env c)) @ [Rollback]\<rparr>) \<and>
      loop [Tick env] c printed =
        (Polling,
         (snd (ingest_once env c))\<lparr>txn := Idle,
            trace := trace (snd (ingest_once env c)) @ [Rollback]\<rparr>,
         printed @ [IngestError e]) \<and>
      loop (Tick env # evs) c printed =
        loop evs
          ((snd (ingest_once env c))\<lparr>txn := Idle,
             trace := trace (snd (ingest_once env c)) @ [Rollback]\<rparr>)
          (printed @ [IngestError e])"
    if h: "fst (ingest_once env c) = Inl e \<and> \<not> is_HTTPError e \<and>
           txn (snd (ingest_once env c)) \<noteq> Closed"
  proof -
    from h i have cy: "cycle env c =
        ((IngestError e, None), c1\<lparr>txn := Idle, trace := trace c1 @ [Rollback]\<rparr>)"
      by (simp add: cycle_def rollback_open)
    from cy loop_goes_on[OF cy] i show ?thesis by simp
  qed
  from 1 2 3 4 5 show ?thesis by blast
qed

theorem error_branches_witness:
  "fst (ingest_once (example_env\<lparr>http := Response 503 None\<rparr>) seeded) = Inl (HTTPError 503) \<and>
   is_HTTPError (HTTPError 503) \<and>
   cycle (example_env\<lparr>http := Response 503 None\<rparr>) seeded =
     ((HttpWarning (HTTPError 503), None), seeded) \<and>
   loop [Tick (example_env\<lparr>http := Response 503 None\<rparr>)] seeded [] =
     (Polling, seeded, [HttpWarning (HTTPError 503)]) \<and>
   ingest_once (example_env\<lparr>http := TimedOut\<rparr>) seeded = (Inl Timeout, seeded) \<and>
   \<not> is_HTTPError Timeout \<and> txn seeded \<noteq> Closed \<and>
   cycle (example_env\<lparr>http := TimedOut\<rparr>) seeded =
     ((IngestError Timeout, None), seeded\<lparr>txn := Idle, trace := trace seeded @ [Rollback]\<rparr>) \<and>
   loop [Tick (example_env\<lparr>http := TimedOut\<rparr>)] seeded [] =
     (Polling, seeded\<lparr>txn := Idle, trace := trace seeded @ [Rollback]\<rparr>,
      [IngestError Timeout])"
proof -
  let ?a = "example_env\<lparr>http := Response 503 None\<rparr>"
  let ?b = "example_env\<lparr>http := TimedOut\<rparr>"
  have a: "ingest_once ?a seeded = (Inl (HTTPError 503), seeded)"
    by (simp add: ingest_once_def fetch_prices_def throw_def)
  have b: "ingest_once ?b seeded = (Inl Timeout, seeded)"
    by (simp add: ingest_once_def fetch_prices_def throw_def)
  have o: "txn seeded \<noteq> Closed" by (simp add: seeded_def)
  note ta = error_branches[of "Response 503 None" ?a seeded "HTTPError 503" "[]" "[]"]
  note tb = error_branches[of TimedOut ?b seeded Timeout "[]" "[]"]
  from ta a have 1: "cycle ?a seeded = ((HttpWarning (HTTPError 503), None), seeded)" by simp
  from ta a have 2: "loop [Tick ?a] seeded [] = (Polling, seeded, [HttpWarning (HTTPError 503)])"
    by simp
  from tb b o have 3: "cycle ?b seeded =
      ((IngestError Timeout, None), seeded\<lparr>txn := Idle, trace := trace seeded @ [Rollback]\<rparr>)"
    by simp
  from tb b o have 4: "loop [Tick ?b] seeded [] =
      (Polling, seeded\<lparr>txn := Idle, trace := trace seeded @ [Rollback]\<rparr>,
       [IngestError Timeout])"
    by simp
  from a b o 1 2 3 4 show ?thesis by simp
qed

subsection \<open>An asset that cannot be resolved\<close>

text \<open>
  Claim C10: when the fetched prices hold an asset id that is not in \<^verbatim>\<open>ASSETS\<close>, or one
  whose symbol is not in the \<^verbatim>\<open>assets\<close> table, the cycle raises KeyError after the one
  \<^verbatim>\<open>SELECT\<close> of \<^verbatim>\<open>get_asset_id_map\<close> and before any insert; the loop takes the rollback
  branch, which leaves the committed store and the sequences as they were; the rollback
  returns, no exception leaves the pass, the loop is still polling after it, and the next
  pass starts on the connection rolled back.
\<close>

theorem unknown_asset_raises_before_write:
  assumes "fetch_prices (http env) = Inr d" and "hit (fault env) AtSelect = None"
    and "txn c \<noteq> Failed" and "txn c \<noteq> Closed" and "assets (view c) = Some rs"
    and "(cg, payload) \<in> set d"
    and "map_of ASSETS cg = None \<or>
         (\<exists>sy nm. map_of ASSETS cg = Some (sy, nm) \<and> sy \<notin> set (map a_symbol rs))"
  shows "\<exists>k.
     ingest_once env c =
       (Inl (KeyError k), c\<lparr>txn := InTxn (view c), trace := trace c @ [Exec SelectAssets]\<rparr>) \<and>
     cycle env c =
       ((IngestError (KeyError k), None),
        c\<lparr>txn := Idle, trace := trace c @ [Exec SelectAssets, Rollback]\<rparr>) \<and>
     loop [Tick env] c printed =
       (Polling, c\<lparr>txn := Idle, trace := trace c @ [Exec SelectAssets, Rollback]\<rparr>,
        printed @ [IngestError (KeyError k)]) \<and>
     loop (Tick env # evs) c printed =
       loop evs (c\<lparr>txn := Idle, trace := trace c @ [Exec SelectAssets, Rollback]\<rparr>)
         (printed @ [IngestError (KeyError k)])"
proof -
  let ?m = "map_of (rev (map (\<lambda>r. (a_symbol r, a_id r)) rs))"
  let ?c1 = "c\<lparr>txn := InTxn (view c), trace := trace c @ [Exec SelectAssets]\<rparr>"
  let ?c2 = "c\<lparr>txn := Idle, trace := trace c @ [Exec SelectAssets, Rollback]\<rparr>"
  have g: "get_asset_id_map (hit (fault env) AtSelect) c = (Inr ?m, ?c1)"
    using get_asset_id_map_ok[OF assms(3,4,5)] assms(2) by simp
  have "map_of ASSETS cg = None \<or> (\<exists>sy nm. map_of ASSETS cg = Some (sy, nm) \<and> ?m sy = None)"
    using assms(7) asset_map_None[of rs] by blast
  from build_rows_bad[OF assms(6) this, of "utcnow env"]
  obtain k where k: "build_rows d ?m (utcnow env) = Inl (KeyError k)" by blast
  have i: "ingest_once env c = (Inl (KeyError k), ?c1)"
    using assms(1) g k by (simp add: ingest_once_def andthen_def throw_def)
  have r: "rollback ?c1 = (Inr (), ?c2)"
    by (simp add: rollback_def Let_def)
  have cy: "cycle env c = ((IngestError (KeyError k), None), ?c2)"
    using i r by (simp add: cycle_def)
  note l = loop_goes_on[OF cy]
  from i cy l(1)[of printed] l(2)[of evs printed] show ?thesis by blast
qed

theorem unknown_asset_raises_before_write_witness:
  "fetch_prices (http (example_env\<lparr>http := Response 200 (Some unknown_prices)\<rparr>)) =
     Inr unknown_prices \<and>
   (''solana'', [(''usd'', 150)]) \<in> set unknown_prices \<and>
   map_of ASSETS ''solana'' = None \<and>
   (\<exists>k. cycle (example_env\<lparr>http := Response 200 (Some unknown_prices)\<rparr>) seeded =
      ((IngestError (KeyError k), None),
       seeded\<lparr>txn := Idle, trace := trace seeded @ [Exec SelectAssets, Rollback]\<rparr>) \<and>
      loop [Tick (example_env\<lparr>http := Response 200 (Some unknown_prices)\<rparr>)] seeded [] =
      (Polling, seeded\<lparr>txn := Idle, trace := trace seeded @ [Exec SelectAssets, Rollback]\<rparr>,
       [IngestError (KeyError k)]))"
proof -
  let ?env = "example_env\<lparr>http := Response 200 (Some unknown_prices)\<rparr>"
  let ?rs = "[\<lparr>a_id = 1, a_symbol = ''BTC'', a_name = ''Bitcoin''\<rparr>,
              \<lparr>a_id = 2, a_symbol = ''ETH'', a_name = ''Ethereum''\<rparr>]"
  have f: "fetch_prices (http ?env) = Inr unknown_prices" by (simp add: fetch_prices_def)
  have u: "hit (fault ?env) AtSelect = None" by (simp add: example_env_def)
  have t: "txn seeded \<noteq> Failed" and o: "txn seeded \<noteq> Closed" by (simp_all add: seeded_def)
  have a: "assets (view seeded) = Some ?rs"
    by (simp add: seeded_def seeded_store_def view_def)
  have m: "(''solana'', [(''usd'', 150)]) \<in> set unknown_prices"
    by (simp add: unknown_prices_def)
  have n: "map_of ASSETS ''solana'' = None" by (simp add: ASSETS_def)
  from n have n': "map_of ASSETS ''solana'' = None \<or>
         (\<exists>sy nm. map_of ASSETS ''solana'' = Some (sy, nm) \<and> sy \<notin> set (map a_symbol ?rs))"
    by simp
  from unknown_asset_raises_before_write[OF f u t o a m n', of "[]" "[]"]
  have "\<exists>k. cycle ?env seeded =
      ((IngestError (KeyError k), None),
       seeded\<lparr>txn := Idle, trace := trace seeded @ [Exec SelectAssets, Rollback]\<rparr>) \<and>
      loop [Tick ?env] seeded [] =
      (Polling, seeded\<lparr>txn := Idle, trace := trace seeded @ [Exec SelectAssets, Rollback]\<rparr>,
       [IngestError (KeyError k)])"
    by (elim exE conjE, intro exI conjI) simp_all
  with f m n show ?thesis by blast
qed

subsection \<open>The bootstrap twice\<close>

text \<open>
  Claim C8: \<^verbatim>\<open>ensure_schema\<close> raises no error on a new connection to an empty database,
  nor on one to a database that a run of it has set up. When a run of it has succeeded,
  the three tables, the hypertable and the unique index exist, and a second run succeeds
  too: it executes the three \<^verbatim>\<open>CREATE TABLE IF NOT EXISTS\<close>, \<^verbatim>\<open>create_hypertable\<close> and
  the index lookup, does not create the index again, and leaves the connection, its
  committed store and the sequences exactly as the first run left them (only the calls
  are added to the trace).
\<close>

theorem ensure_schema_twice:
  "(txn c = Idle \<and> (committed c = empty_store \<or> bootstrapped (committed c)) \<longrightarrow>
      fst (ensure_schema c) = Inr ()) \<and>
   (ensure_schema c = (Inr (), c1) \<longrightarrow>
      bootstrapped (committed c1) \<and>
      ensure_schema c1 =
        (Inr (), c1\<lparr>trace := trace c1 @
           [Exec CreateUsers, Exec CreateAssets, Exec CreateTransactions,
            Exec CreateHypertable, Exec SelectIndex, Commit]\<rparr>))"
  using ensure_schema_post[of c c1] ensure_schema_noop[of c1] ensure_schema_noop[of c]
    ensure_schema_empty[of c]
  by auto

theorem ensure_schema_twice_witness:
  "txn fresh = Idle \<and> committed fresh = empty_store \<and>
   fst (ensure_schema fresh) = Inr () \<and>
   ensure_schema fresh = (Inr (), created) \<and>
   bootstrapped (committed created) \<and>
   ensure_schema created =
     (Inr (), created\<lparr>trace := trace created @
        [Exec CreateUsers, Exec CreateAssets, Exec CreateTransactions,
         Exec CreateHypertable, Exec SelectIndex, Commit]\<rparr>)"
proof -
  have t: "txn fresh = Idle" and k: "committed fresh = empty_store"
    by (simp_all add: fresh_def)
  note th = ensure_schema_twice[of fresh created]
  from th t k have 1: "fst (ensure_schema fresh) = Inr ()" by simp
  from th ensure_schema_fresh have 2: "bootstrapped (committed created)" by simp
  from th ensure_schema_fresh have 3: "ensure_schema created =
     (Inr (), created\<lparr>trace := trace created @
        [Exec CreateUsers, Exec CreateAssets, Exec CreateTransactions,
         Exec CreateHypertable, Exec SelectIndex, Commit]\<rparr>)" by simp
  from t k 1 2 3 ensure_schema_fresh show ?thesis by simp
qed

subsection \<open>One cycle on the example response\<close>

text \<open>
  Claim C1 says that on the example response, with the assets BTC and ETH in the table,
  \<^verbatim>\<open>ingest_once\<close> appends two rows that carry the timestamp taken at the start of the
  cycle. The rows are written for the actor with id 1, whatever the id of the actor in
  the table: in a run that starts on a database whose \<^verbatim>\<open>users\<close> sequence has handed out
  its first value before, the bootstrap and the seeding succeed, the actor gets id 2, the
  assets are there, and the \<^verbatim>\<open>INSERT\<close> of the cycle violates the foreign key on the
  actor: no row is appended. And the clock is read when \<^verbatim>\<open>fetch_prices\<close> has returned:
  in the first cycle of a first run, started at 40 with a request that takes 2, the two
  rows carry 42.
\<close>

theorem example_without_actor_1:
  "fst (ensure_schema burnt) = Inr () \<and>
   fst (seed_reference_data (snd (ensure_schema burnt))) = Inr () \<and>
   users (committed restarted) = Some [\<lparr>u_id = 2, u_name = ''Sarah''\<rparr>] \<and>
   assets (committed restarted) =
     Some [\<lparr>a_id = 1, a_symbol = ''BTC'', a_name = ''Bitcoin''\<rparr>,
           \<lparr>a_id = 2, a_symbol = ''ETH'', a_name = ''Ethereum''\<rparr>] \<and>
   transactions (committed restarted) = Some [] \<and>
   fetch_prices (http example_env) = Inr example_prices \<and>
   fst (ingest_once example_env restarted) = Inl ForeignKeyViolation \<and>
   transactions (committed (snd (ingest_once example_env restarted))) = Some [] \<and>
   started example_env = 40 \<and>
   map ts (rows_of (transactions (committed (snd (cycle example_env seeded))))) = [42, 42]"
proof -
  have 1: "fst (ensure_schema burnt) = Inr ()"
    by (simp add: burnt_def ensure_schema_def created_def stmt_defs conn_defs)
  have 2: "fst (seed_reference_data (snd (ensure_schema burnt))) = Inr ()"
    by (simp add: burnt_def ensure_schema_def seed_reference_data_def ASSETS_def
          created_def stmt_defs conn_defs)
  have 3: "fetch_prices (http example_env) = Inr example_prices"
    by (simp add: example_env_def fetch_prices_def)
  have 4: "ingest_once example_env restarted =
      (Inl ForeignKeyViolation,
       restarted\<lparr>txn := Failed,
         sequences := \<lparr>users_id_seq = 2, assets_id_seq = 2, transactions_id_seq = 2\<rparr>,
         trace := trace restarted @
           [Exec SelectAssets,
            Exec (InsertTransactions [(1, 1, 1, 67000, 42), (1, 2, 1, 3500, 42)])]\<rparr>)"
    unfolding restarted_eq
    by (simp add: ingest_once_def example_env_def example_prices_def fetch_prices_def
          utcnow_def get_asset_id_map_def ASSETS_def seeded_store_def
          execute_values_def paginate_one refs_ok_def rows_of_def stmt_defs conn_defs)
  have 5: "started example_env = 40" by (simp add: example_env_def)
  have 6: "map ts (rows_of (transactions (committed (snd (cycle example_env seeded))))) =
           [42, 42]"
    by (simp add: cycle_seeded polled_def rows_of_def)
  from 1 2 3 4 5 6 show ?thesis
    by (simp add: restarted_eq seeded_store_def)
qed

text \<open>
  Claim C1, amended: on the response with Bitcoin at 67000 and Ethereum at 3500, with no
  pending transaction and no failing database call, the actor with id 1 in \<^verbatim>\<open>users\<close>,
  the assets BTC and ETH in the table (symbols unique) and the ids of the stored
  observations all drawn from the sequence, \<^verbatim>\<open>ingest_once\<close> returns the count 2 and
  appends exactly two rows to \<^verbatim>\<open>transactions\<close>, each with amount 1, the price of the
  response and the one clock reading of the cycle, taken when the response has arrived
  (the start of the cycle plus the time of the request); the rows go in one
  \<^verbatim>\<open>INSERT\<close> statement followed by one commit.
\<close>

theorem ingest_once_example:
  assumes "fetch_prices (http env) = Inr example_prices" and "fault env = NoFault"
    and "txn c = Idle"
    and "users (committed c) = Some us" and "1 \<in> set (map u_id us)"
    and "assets (committed c) = Some ast" and "distinct (map a_symbol ast)"
    and "rb \<in> set ast" and "a_symbol rb = ''BTC''"
    and "re \<in> set ast" and "a_symbol re = ''ETH''"
    and "transactions (committed c) = Some old"
    and "\<forall>r\<in>set old. t_id r \<le> transactions_id_seq (sequences c)"
  shows "ingest_once env c =
    (Inr (2, started env + waited env),
     c\<lparr>committed := (committed c)\<lparr>transactions := Some (old @
          [\<lparr>t_id = transactions_id_seq (sequences c) + 1, user_id = 1, asset_id = a_id rb,
            amount = 1, price_usd = 67000, ts = started env + waited env\<rparr>,
           \<lparr>t_id = transactions_id_seq (sequences c) + 2, user_id = 1, asset_id = a_id re,
            amount = 1, price_usd = 3500, ts = started env + waited env\<rparr>])\<rparr>,
       sequences := (sequences c)\<lparr>transactions_id_seq := transactions_id_seq (sequences c) + 2\<rparr>,
       trace := trace c @
         [Exec SelectAssets,
          Exec (InsertTransactions
                  [(1, a_id rb, 1, 67000, started env + waited env),
                   (1, a_id re, 1, 3500, started env + waited env)]),
          Commit]\<rparr>)"
proof -
  define now where "now = started env + waited env"
  have u: "utcnow env = now" by (simp add: utcnow_def now_def)
  let ?m = "map_of (rev (map (\<lambda>r. (a_symbol r, a_id r)) ast))"
  let ?c1 = "c\<lparr>txn := InTxn (view c), trace := trace c @ [Exec SelectAssets]\<rparr>"
  let ?rows = "[(1, a_id rb, 1, 67000, now), (1, a_id re, 1, 3500, now)] :: new_tx list"
  have v: "view c = committed c" using assms(3) by (simp add: view_def)
  note f = assms(1)
  have g: "get_asset_id_map None c = (Inr ?m, ?c1)"
    using get_asset_id_map_ok[of c ast] assms(3,6) v by simp
  have mb: "?m ''BTC'' = Some (a_id rb)"
    using asset_map_Some[OF assms(7,8)] assms(9) by simp
  have me: "?m ''ETH'' = Some (a_id re)"
    using asset_map_Some[OF assms(7,10)] assms(11) by simp
  have b: "build_rows example_prices ?m now = Inr ?rows"
    using mb me by (simp add: example_prices_def ASSETS_def)
  have p: "paginate 100 ?rows = [?rows]" by (rule paginate_one) simp_all
  let ?s' = "(committed c)\<lparr>transactions := Some (old @
          [\<lparr>t_id = transactions_id_seq (sequences c) + 1, user_id = 1, asset_id = a_id rb,
            amount = 1, price_usd = 67000, ts = now\<rparr>,
           \<lparr>t_id = transactions_id_seq (sequences c) + 2, user_id = 1, asset_id = a_id re,
            amount = 1, price_usd = 3500, ts = now\<rparr>])\<rparr>"
  let ?q' = "(sequences c)\<lparr>transactions_id_seq := transactions_id_seq (sequences c) + 2\<rparr>"
  let ?c2 = "c\<lparr>txn := InTxn ?s', sequences := ?q',
               trace := trace c @ [Exec SelectAssets, Exec (InsertTransactions ?rows)]\<rparr>"
  have v1: "view (?c1\<lparr>trace := trace ?c1 @ [Exec (InsertTransactions ?rows)]\<rparr>) = committed c"
    using v by (simp add: view_def)
  have r: "list_all (refs_ok (committed c)) ?rows"
    using assms(4,5,6,8,10) by (simp add: refs_ok_def rows_of_def)
  have ins: "insert_transactions ?rows (committed c) (sequences c) = (Inr ((), ?s'), ?q')"
    unfolding insert_transactions_def using assms(12) r place_rows_two[OF assms(13)]
    by simp
  have ex: "execute None (InsertTransactions ?rows) (insert_transactions ?rows) ?c1 =
              (Inr (), ?c2)"
    using v1 ins by (simp add: execute_def del: One_nat_def)
  have cm: "commit None ?c2 =
     (Inr (), c\<lparr>committed := ?s', sequences := ?q',
        trace := trace c @ [Exec SelectAssets, Exec (InsertTransactions ?rows), Commit]\<rparr>)"
    using assms(3) by (simp add: commit_def view_def del: One_nat_def)
  have ev: "execute_values None ?rows ?c1 = (Inr (), ?c2)"
    using ex by (simp add: execute_values_def p andthen_def ret_def del: One_nat_def)
  have fl: "hit (fault env) AtSelect = None" "hit (fault env) AtInsert = None"
    "hit (fault env) AtCommit = None"
    using assms(2) by simp_all
  have "ingest_once env c =
    (Inr (2, now),
     c\<lparr>committed := ?s', sequences := ?q',
       trace := trace c @ [Exec SelectAssets, Exec (InsertTransactions ?rows), Commit]\<rparr>)"
    unfolding ingest_once_def fl u
    using f g b ev cm
    by (simp add: andthen_def ret_def)
  then show ?thesis unfolding now_def .
qed

theorem ingest_once_example_witness:
  "fetch_prices (http example_env) = Inr example_prices \<and>
   fault example_env = NoFault \<and> txn seeded = Idle \<and>
   started example_env = 40 \<and> waited example_env = 2 \<and>
   ingest_once example_env seeded =
    (Inr (2, 42),
     seeded\<lparr>committed := seeded_store\<lparr>transactions := Some
          [\<lparr>t_id = 1, user_id = 1, asset_id = 1, amount = 1, price_usd = 67000, ts = 42\<rparr>,
           \<lparr>t_id = 2, user_id = 1, asset_id = 2, amount = 1, price_usd = 3500, ts = 42\<rparr>]\<rparr>,
       sequences := \<lparr>users_id_seq = 1, assets_id_seq = 2, transactions_id_seq = 2\<rparr>,
       trace := trace seeded @
         [Exec SelectAssets,
          Exec (InsertTransactions [(1, 1, 1, 67000, 42), (1, 2, 1, 3500, 42)]),
          Commit]\<rparr>)"
proof -
  let ?rb = "\<lparr>a_id = 1, a_symbol = ''BTC'', a_name = ''Bitcoin''\<rparr>"
  let ?re = "\<lparr>a_id = 2, a_symbol = ''ETH'', a_name = ''Ethereum''\<rparr>"
  have 1: "fetch_prices (http example_env) = Inr example_prices"
    by (simp add: example_env_def fetch_prices_def)
  have 2: "fault example_env = NoFault" by (simp add: example_env_def)
  have 3: "txn seeded = Idle" by (simp add: seeded_def)
  have 4: "users (committed seeded) = Some [\<lparr>u_id = 1, u_name = ''Sarah''\<rparr>]"
    by (simp add: seeded_def seeded_store_def)
  have 5: "1 \<in> set (map u_id [\<lparr>u_id = 1, u_name = ''Sarah''\<rparr>])" by simp
  have 6: "assets (committed seeded) = Some [?rb, ?re]"
    by (simp add: seeded_def seeded_store_def)
  have 7: "distinct (map a_symbol [?rb, ?re])" by simp
  have 8: "?rb \<in> set [?rb, ?re]" "a_symbol ?rb = ''BTC''" by simp_all
  have 9: "?re \<in> set [?rb, ?re]" "a_symbol ?re = ''ETH''" by simp_all
  have 10: "transactions (committed seeded) = Some []"
    by (simp add: seeded_def seeded_store_def)
  have 11: "\<forall>r\<in>set ([] :: tx_row list). t_id r \<le> transactions_id_seq (sequences seeded)"
    by simp
  note th = ingest_once_example[OF 1 2 3 4 5 6 7 8 9 10 11]
  have u: "started example_env = 40" "waited example_env = 2" by (simp_all add: example_env_def)
  have q: "sequences seeded = \<lparr>users_id_seq = 1, assets_id_seq = 2, transactions_id_seq = 0\<rparr>"
    and k: "committed seeded = seeded_store"
    by (simp_all add: seeded_def)
  from th have "ingest_once example_env seeded =
    (Inr (2, 42),
     seeded\<lparr>committed := seeded_store\<lparr>transactions := Some
          [\<lparr>t_id = 1, user_id = 1, asset_id = 1, amount = 1, price_usd = 67000, ts = 42\<rparr>,
           \<lparr>t_id = 2, user_id = 1, asset_id = 2, amount = 1, price_usd = 3500, ts = 42\<rparr>]\<rparr>,
       sequences := \<lparr>users_id_seq = 1, assets_id_seq = 2, transactions_id_seq = 2\<rparr>,
       trace := trace seeded @
         [Exec SelectAssets,
          Exec (InsertTransactions [(1, 1, 1, 67000, 42), (1, 2, 1, 3500, 42)]),
          Commit]\<rparr>)"
    by (simp add: u q k)
  with 1 2 3 u show ?thesis by blast
qed

subsection \<open>Append-only observations\<close>

text \<open>
  Claim C6: from a connection with no pending transaction, after any number of
  operations of the system (bootstrap, seeding, passes through the loop body with
  whatever they meet, closing), the committed observation rows are the rows committed
  before, unchanged and in place, followed by new ones: no row is mutated or deleted.
\<close>

theorem append_only:
  assumes "txn c = Idle" and "rtranclp step c c'"
  shows "\<exists>new. rows_of (transactions (committed c')) =
               rows_of (transactions (committed c)) @ new"
  using inv_steps[OF assms(2) inv_start[OF assms(1)]]
  by (simp add: inv_def evolves_def extends_def)

text \<open>
  The two rows that the first pass of a first run has committed are still the first two
  rows after a pass whose \<^verbatim>\<open>INSERT\<close> the server refuses, a second seeding, a second
  successful pass and the closing of the connection.
\<close>

theorem append_only_witness:
  "txn polled = Idle \<and>
   rows_of (transactions (committed polled)) =
     [\<lparr>t_id = 1, user_id = 1, asset_id = 1, amount = 1, price_usd = 67000, ts = 42\<rparr>,
      \<lparr>t_id = 2, user_id = 1, asset_id = 2, amount = 1, price_usd = 3500, ts = 42\<rparr>] \<and>
   rtranclp step polled
     (close (snd (cycle example_env (snd (seed_reference_data
        (snd (cycle (example_env\<lparr>fault := Fails AtInsert Refused\<rparr>) polled))))))) \<and>
   (\<exists>new. rows_of (transactions (committed
       (close (snd (cycle example_env (snd (seed_reference_data
          (snd (cycle (example_env\<lparr>fault := Fails AtInsert Refused\<rparr>) polled))))))))) =
     [\<lparr>t_id = 1, user_id = 1, asset_id = 1, amount = 1, price_usd = 67000, ts = 42\<rparr>,
      \<lparr>t_id = 2, user_id = 1, asset_id = 2, amount = 1, price_usd = 3500, ts = 42\<rparr>] @ new)"
proof -
  let ?c1 = "snd (cycle (example_env\<lparr>fault := Fails AtInsert Refused\<rparr>) polled)"
  let ?c2 = "snd (seed_reference_data ?c1)"
  let ?c3 = "snd (cycle example_env ?c2)"
  have t: "txn polled = Idle" by (simp add: polled_def)
  have k: "rows_of (transactions (committed polled)) =
     [\<lparr>t_id = 1, user_id = 1, asset_id = 1, amount = 1, price_usd = 67000, ts = 42\<rparr>,
      \<lparr>t_id = 2, user_id = 1, asset_id = 2, amount = 1, price_usd = 3500, ts = 42\<rparr>]"
    by (simp add: polled_def rows_of_def)
  have 1: "step polled ?c1" by (rule step.tick)
  have 2: "step ?c1 ?c2" by (rule step.seed)
  have 3: "step ?c2 ?c3" by (rule step.tick)
  have 4: "step ?c3 (close ?c3)" by (rule step.stop)
  have r: "rtranclp step polled (close ?c3)"
    using 1 2 3 4 by (meson rtranclp.rtrancl_into_rtrancl rtranclp.rtrancl_refl)
  note th = append_only[OF t r]
  from th k have e: "\<exists>new. rows_of (transactions (committed (close ?c3))) =
     [\<lparr>t_id = 1, user_id = 1, asset_id = 1, amount = 1, price_usd = 67000, ts = 42\<rparr>,
      \<lparr>t_id = 2, user_id = 1, asset_id = 2, amount = 1, price_usd = 3500, ts = 42\<rparr>] @ new"
    by simp
  from t k r e show ?thesis by blast
qed

subsection \<open>Unique symbols and existing references\<close>

text \<open>
  Claim C7: start from a database that satisfies its own constraints, with no pending
  transaction, and let \<^verbatim>\<open>ensure_schema\<close> succeed. Then in every state reached by any
  number of operations of the system (seeding and passes through the loop body among
  them) the asset symbols are pairwise different, and every observation row refers to an
  actor row and to an asset row that exist.
\<close>

theorem constraints_hold:
  assumes "integrity (committed c0)" and "txn c0 = Idle"
    and "ensure_schema c0 = (Inr (), c1)" and "rtranclp step c1 c"
  shows "symbols_unique (committed c) \<and> references_exist (committed c)"
proof -
  have "inv (committed c0) (snd (ensure_schema c0))"
    using inv_ensure_schema[OF inv_start[OF assms(2)]] .
  then have i1: "integrity (committed c1)"
    using assms(1,3) by (simp add: inv_def evolves_def)
  from ensure_schema_post[OF assms(3)]
  have k1: "assets_symbol_key (committed c1)" and t1: "txn c1 = Idle"
    by (simp_all add: bootstrapped_def)
  from inv_steps[OF assms(4) inv_start[OF t1]] i1 k1
  have "integrity (committed c)" and "assets_symbol_key (committed c)"
    by (simp_all add: inv_def evolves_def)
  then show ?thesis by (simp add: integrity_def)
qed

theorem constraints_hold_witness:
  "integrity (committed fresh) \<and> txn fresh = Idle \<and>
   ensure_schema fresh = (Inr (), created) \<and>
   rtranclp step created (snd (cycle example_env seeded)) \<and>
   symbols_unique (committed (snd (cycle example_env seeded))) \<and>
   references_exist (committed (snd (cycle example_env seeded)))"
proof -
  have i: "integrity (committed fresh)"
    by (simp add: fresh_def empty_store_def integrity_def references_exist_def rows_of_def)
  have t: "txn fresh = Idle" by (simp add: fresh_def)
  have 2: "step created seeded"
    using step.seed[of created] by (simp add: seed_created)
  have 3: "step seeded (snd (cycle example_env seeded))" by (rule step.tick)
  have r: "rtranclp step created (snd (cycle example_env seeded))"
    using 2 3 by (meson rtranclp.rtrancl_into_rtrancl rtranclp.rtrancl_refl)
  from constraints_hold[OF i t ensure_schema_fresh r] i t ensure_schema_fresh r
  show ?thesis by simp
qed

end
